theory Spec2Isabelle
  imports Complex_Main
begin

section \<open>Values, errors and the module parameters\<close>

text \<open>
  The two scripts \<^verbatim>\<open>level_prag_learn.py\<close> and \<^verbatim>\<open>learn_pragmatics.py\<close> compute with
  Python floats. The embedding reads a float as a \<^typ>\<open>real\<close>: rounding, infinities and
  NaN are outside the model. What Python raises is a value of \<open>error\<close>, and a function
  that can raise returns \<open>error + 'a\<close> with \<open>Inl\<close> for the exception.
\<close>

datatype error = ValueError | ZeroDivisionError | IndexError | UnboundLocalError

definition ebind :: "error + 'a \<Rightarrow> ('a \<Rightarrow> error + 'b) \<Rightarrow> error + 'b" where
  "ebind m f = (case m of Inl e \<Rightarrow> Inl e | Inr v \<Rightarrow> f v)"

text \<open>\<^verbatim>\<open>xs[i]\<close> for an index that is not negative: out of range raises IndexError.\<close>

definition index_r :: "'a list \<Rightarrow> nat \<Rightarrow> error + 'a" where
  "index_r xs i = (if i < length xs then Inr (xs ! i) else Inl IndexError)"

text \<open>\<^verbatim>\<open>math.log\<close>: a ValueError (math domain error) unless the argument is positive.\<close>

definition py_log :: "real \<Rightarrow> error + real" where
  "py_log x = (if 0 < x then Inr (ln x) else Inl ValueError)"

text \<open>\<^verbatim>\<open>x / n\<close> for a float and a Python integer: a zero divisor raises.\<close>

definition py_div :: "real \<Rightarrow> int \<Rightarrow> error + real" where
  "py_div x n = (if n = 0 then Inl ZeroDivisionError else Inr (x / real_of_int n))"

text \<open>The parameters both scripts set at module level.\<close>

definition noise :: real where
  "noise = 5 / 100"

definition alpha :: real where
  "alpha = 3"

definition meanings :: "nat list" where
  "meanings = [0, 1, 2]"

definition signals :: "char list" where
  "signals = ''abc''"

definition num_signals :: nat where
  "num_signals = 3"

text \<open>
  A language (lexicon) is a matrix of the characters \<open>0\<close> and \<open>1\<close>, one row per
  meaning and one column per signal. A hypothesis of \<^verbatim>\<open>level_prag_learn.py\<close> is
  \<^verbatim>\<open>[language, perspective, pragmatic_lvl]\<close>.
\<close>

type_synonym language = "char list list"

type_synonym hypothesis = "language \<times> real \<times> int"

section \<open>Library functions the scripts import\<close>

text \<open>
  \<^verbatim>\<open>scipy.special.logsumexp\<close> and \<^verbatim>\<open>softmax\<close> over the reals. Every call the
  scripts make passes a vector that is not empty.
\<close>

definition logsumexp :: "real list \<Rightarrow> real" where
  "logsumexp xs = ln (sum_list (map exp xs))"

definition softmax :: "real list \<Rightarrow> real list" where
  "softmax us = map (\<lambda>u. exp u / sum_list (map exp us)) us"

text \<open>
  Modelled from the spec: \<^verbatim>\<open>utilities.normalize_logprobs\<close> is not among the sources.
  The spec (4.1) gives it as \<open>v_i - logsumexp(v)\<close> for each entry.
\<close>

definition normalize_logprobs :: "real list \<Rightarrow> real list" where
  "normalize_logprobs vs = map (\<lambda>v. v - logsumexp vs) vs"

section \<open>Loops that fill an array\<close>

text \<open>
  \<^verbatim>\<open>for i in idx: arr[i] = f(i)\<close> on an array that was allocated before the loop.
  The first call of \<open>f\<close> that raises ends the loop.
\<close>

fun fill_loop :: "(nat \<Rightarrow> error + 'a) \<Rightarrow> nat list \<Rightarrow> 'a list \<Rightarrow> error + 'a list" where
  "fill_loop f [] arr = Inr arr"
| "fill_loop f (i # idx) arr =
     (case f i of
        Inl e \<Rightarrow> Inl e
      | Inr v \<Rightarrow> if i < length arr then fill_loop f idx (arr[i := v]) else Inl IndexError)"

text \<open>A list comprehension \<^verbatim>\<open>[f(x) for x in xs]\<close> whose body can raise.\<close>

fun comprehension :: "('a \<Rightarrow> error + 'b) \<Rightarrow> 'a list \<Rightarrow> error + 'b list" where
  "comprehension f [] = Inr []"
| "comprehension f (x # xs) =
     (case f x of
        Inl e \<Rightarrow> Inl e
      | Inr v \<Rightarrow> (case comprehension f xs of Inl e \<Rightarrow> Inl e | Inr vs \<Rightarrow> Inr (v # vs)))"

section \<open>The model of \<^verbatim>\<open>level_prag_learn.py\<close>\<close>

subsection \<open>Mental state\<close>

definition calc_mental_state :: "real \<Rightarrow> real list \<Rightarrow> error + real list" where
  "calc_mental_state perspective context =
     ebind (fill_loop (\<lambda>o'. py_log (1 - \<bar>perspective - context ! o'\<bar>))
              [0..<length context] (replicate (length context) 0))
       (\<lambda>distribution. Inr (normalize_logprobs distribution))"

subsection \<open>Literal listener\<close>

text \<open>
  \<^verbatim>\<open>signals[np.where(language[meaning] != '0')]\<close>: the signals at the columns of the
  row that are not \<open>0\<close>; a column beyond the alphabet raises IndexError. The rows
  of a language are arrays of characters here, compared entry by entry; the module
  \<^verbatim>\<open>hypotheses\<close> that builds them is not among the sources.
\<close>

definition signals_where :: "char list \<Rightarrow> error + char list" where
  "signals_where row =
     comprehension (index_r signals) (filter (\<lambda>s. row ! s \<noteq> CHR ''0'') [0..<length row])"

definition list1_lit_spkr :: "char \<Rightarrow> nat \<Rightarrow> language \<Rightarrow> real list \<Rightarrow> error + real" where
  "list1_lit_spkr signal meaning language ref_distribution =
     ebind (index_r language meaning) (\<lambda>row.
     ebind (signals_where row) (\<lambda>signals_for_r.
       let num_signals_for_r = length signals_for_r in
       if signal \<in> set signals_for_r then
         ebind (if num_signals_for_r = length signals
                then ebind (py_div 1 (int num_signals_for_r)) py_log
                else ebind (py_div (1 - noise) (int num_signals_for_r)) py_log) (\<lambda>in_language.
         ebind (index_r ref_distribution meaning) (\<lambda>r. Inr (r + in_language)))
       else
         ebind (ebind (py_div noise (int (length signals) - int num_signals_for_r)) py_log)
           (\<lambda>out_of_language.
         ebind (index_r ref_distribution meaning) (\<lambda>r. Inr (r + out_of_language)))))"

definition list1_perception_matrix :: "language \<Rightarrow> real list \<Rightarrow> error + real list list" where
  "list1_perception_matrix language ref_distribution =
     fill_loop (\<lambda>s.
         ebind (fill_loop (\<lambda>m. list1_lit_spkr (signals ! s) m language ref_distribution)
                  meanings (replicate (length meanings) 0))
           (\<lambda>row. Inr (normalize_logprobs row)))
       [0..<length signals] (replicate (length signals) (replicate (length meanings) 0))"

subsection \<open>Pragmatic speaker\<close>

definition spkr1_production_probs :: "nat \<Rightarrow> language \<Rightarrow> real list \<Rightarrow> error + real list" where
  "spkr1_production_probs meaning language mental_state =
     ebind (comprehension (\<lambda>s.
              ebind (list1_perception_matrix language mental_state) (\<lambda>mat.
              ebind (index_r mat s) (\<lambda>row.
              ebind (index_r row meaning) (\<lambda>v. Inr (alpha * v)))))
            [0..<length signals])
       (\<lambda>signal_utility. Inr (map ln (softmax signal_utility)))"

subsection \<open>Pragmatic listener\<close>

text \<open>
  The loop of \<^verbatim>\<open>list2_spkr1\<close> works on one array, \<^verbatim>\<open>noisy_speaker_probs\<close>: it
  writes entry \<open>s\<close>, reads the other entries of the same array, and writes entry \<open>s\<close>
  again.
\<close>

fun noisy_loop :: "nat list \<Rightarrow> real list \<Rightarrow> real list" where
  "noisy_loop [] noisy_speaker_probs = noisy_speaker_probs"
| "noisy_loop (s # ss) noisy_speaker_probs =
     (let nsp1 = noisy_speaker_probs[s := noisy_speaker_probs ! s + ln (1 - noise)];
          other_signals = map (\<lambda>os. nsp1 ! os) (filter (\<lambda>os. os \<noteq> s) [0..<length nsp1]);
          nsp2 = nsp1[s := logsumexp [nsp1 ! s,
                    (ln noise + logsumexp other_signals) - ln (real (length signals) - 1)]]
      in noisy_loop ss nsp2)"

text \<open>
  \<^verbatim>\<open>np.where(signals == signal)\<close> is the array of the positions of the signal. For a
  signal of the alphabet it has one element, and the one-element result is stored as a
  number by the caller. For any other signal it is empty and the caller's store of the
  empty result raises ValueError; the model raises it here, after everything else.
\<close>

definition list2_spkr1 :: "char \<Rightarrow> nat \<Rightarrow> language \<Rightarrow> real list \<Rightarrow> error + real" where
  "list2_spkr1 signal meaning language ref_distribution =
     (let s_index = filter (\<lambda>i. signals ! i = signal) [0..<length signals] in
      ebind (spkr1_production_probs meaning language ref_distribution) (\<lambda>speaker_probs.
        let noisy_speaker_probs = noisy_loop [0..<length speaker_probs] speaker_probs in
        ebind (index_r ref_distribution meaning) (\<lambda>r.
          case s_index of
            [i] \<Rightarrow> Inr (r + noisy_speaker_probs ! i)
          | _ \<Rightarrow> Inl ValueError)))"

subsection \<open>Posterior update\<close>

definition marginal_likelihood :: "hypothesis \<Rightarrow> char \<Rightarrow> real list \<Rightarrow> error + real" where
  "marginal_likelihood h signal context =
     (case h of (language, perspective, pragmatic_lvl) \<Rightarrow>
        ebind (calc_mental_state perspective context) (\<lambda>ref_distribution.
        ebind (if pragmatic_lvl = 0 then
                 fill_loop (\<lambda>m. list1_lit_spkr signal m language ref_distribution)
                   meanings (replicate (length meanings) 0)
               else if pragmatic_lvl = 1 then
                 fill_loop (\<lambda>m. list2_spkr1 signal m language ref_distribution)
                   meanings (replicate (length meanings) 0)
               else Inr (replicate (length meanings) 0))
          (\<lambda>marginalize. Inr (logsumexp marginalize))))"

definition update_posterior :: "hypothesis list \<Rightarrow> real list \<Rightarrow> char \<Rightarrow> real list \<Rightarrow> error + real list" where
  "update_posterior hypotheses posterior signal context =
     ebind (fill_loop (\<lambda>i.
              ebind (index_r hypotheses i) (\<lambda>h.
              ebind (marginal_likelihood h signal context) (\<lambda>l. Inr (posterior ! i + l))))
            [0..<length posterior] (replicate (length posterior) 0))
       (\<lambda>new_posterior. Inr (normalize_logprobs new_posterior))"

subsection \<open>Production\<close>

text \<open>
  \<^verbatim>\<open>produce\<close> draws random numbers. The model takes the outcomes of the draws as
  an argument: the meaning that \<^verbatim>\<open>sample\<close> returns, the position that
  \<^verbatim>\<open>utilities.wta\<close> returns, the position drawn from the production probabilities
  at pragmatic level 1, the value of \<^verbatim>\<open>random.random()\<close>, and the position that
  \<^verbatim>\<open>np.random.choice\<close> picks in \<^verbatim>\<open>other_signals\<close>.
  A pragmatic level other than 0 and 1 leaves \<^verbatim>\<open>signal\<close> unbound at the
  \<^verbatim>\<open>return\<close>.
\<close>

record draws =
  sampled_meaning :: nat
  wta_index :: nat
  sampled_signal :: nat
  uniform_draw :: real
  choice_index :: nat

text \<open>
  Modelled from the spec: \<^verbatim>\<open>utilities.wta\<close> is not among the sources. By 4.6 it
  picks the position of the highest weight of the lexicon row; \<open>wta_possible\<close> says
  that a position is one it can return.
\<close>

definition wta_possible :: "char list \<Rightarrow> nat \<Rightarrow> bool" where
  "wta_possible items w \<longleftrightarrow>
     w < length items \<and> list_all (\<lambda>c. (of_char c :: nat) \<le> of_char (items ! w)) items"

text \<open>
  \<^verbatim>\<open>for s in signals_for_r: other_signals = signals[np.where(signals != s)]\<close>: every
  round filters the whole alphabet again.
\<close>

fun other_signals_loop :: "char list \<Rightarrow> char list \<Rightarrow> char list" where
  "other_signals_loop [] other_signals = other_signals"
| "other_signals_loop (s # rest) other_signals =
     other_signals_loop rest (filter (\<lambda>x. x \<noteq> s) signals)"

definition produce :: "hypothesis \<Rightarrow> real list \<Rightarrow> draws \<Rightarrow> error + char \<times> real list" where
  "produce system context d =
     (case system of (language, perspective, pragmatic_lvl) \<Rightarrow>
        ebind (calc_mental_state perspective context) (\<lambda>mental_state.
          let meaning = sampled_meaning d in
          if pragmatic_lvl = 0 then
            ebind (index_r language meaning) (\<lambda>row.
            ebind (index_r signals (wta_index d)) (\<lambda>signal.
            ebind (comprehension (\<lambda>s. ebind (index_r row s) (\<lambda>c. Inr (s, c = CHR ''1'')))
                     [0..<length meanings]) (\<lambda>flags.
              let signals_for_r = map (\<lambda>(s, _). signals ! s) (filter snd flags);
                  num_signals_for_r = length signals_for_r
              in if uniform_draw d < noise \<and> num_signals_for_r \<noteq> 3 then
                   (let other_signals = other_signals_loop signals_for_r signals
                    in ebind (index_r other_signals (choice_index d)) (\<lambda>signal.
                         Inr (signal, context)))
                 else Inr (signal, context))))
          else if pragmatic_lvl = 1 then
            ebind (spkr1_production_probs meaning language mental_state) (\<lambda>probs.
            ebind (index_r signals (sampled_signal d)) (\<lambda>signal.
              if uniform_draw d < noise then
                (let other_signals = filter (\<lambda>x. x \<noteq> signal) signals
                 in ebind (index_r other_signals (choice_index d)) (\<lambda>signal.
                      Inr (signal, context)))
              else Inr (signal, context)))
          else Inl UnboundLocalError))"

subsection \<open>Posterior update with the arrays in a store\<close>

text \<open>
  Python passes \<^verbatim>\<open>posterior\<close> by reference. To state what the call does to the
  caller's array, the arrays of \<^verbatim>\<open>update_posterior\<close> are placed in a store: a list
  of arrays, with the position in the list as the address. \<^verbatim>\<open>np.zeros\<close> allocates
  at the end of the store. The loop reads \<^verbatim>\<open>posterior[i]\<close> and writes
  \<^verbatim>\<open>new_posterior[i]\<close>; both indices are below the common length. The functions
  called in the loop body never receive the posterior, so they stay as above.
  Modelled from the spec: \<^verbatim>\<open>utilities.normalize_logprobs\<close> is not among the sources;
  by 4.1 it returns a sequence, here a new array at the end of the store.
  When the call raises, the store is the one at that moment.
\<close>

type_synonym heap = "real list list"

fun posterior_loop ::
  "hypothesis list \<Rightarrow> nat \<Rightarrow> nat \<Rightarrow> char \<Rightarrow> real list \<Rightarrow> nat list \<Rightarrow> heap \<Rightarrow> (error + unit) \<times> heap" where
  "posterior_loop hypotheses posterior new_posterior signal context [] h = (Inr (), h)"
| "posterior_loop hypotheses posterior new_posterior signal context (i # idx) h =
     (case ebind (index_r hypotheses i) (\<lambda>hyp. marginal_likelihood hyp signal context) of
        Inl e \<Rightarrow> (Inl e, h)
      | Inr l \<Rightarrow>
          posterior_loop hypotheses posterior new_posterior signal context idx
            (h[new_posterior := (h ! new_posterior)[i := h ! posterior ! i + l]]))"

definition update_posterior_heap ::
  "hypothesis list \<Rightarrow> nat \<Rightarrow> char \<Rightarrow> real list \<Rightarrow> heap \<Rightarrow> (error + nat) \<times> heap" where
  "update_posterior_heap hypotheses posterior signal context h =
     (let n = length (h ! posterior);
          new_posterior = length h;
          h1 = h @ [replicate n 0]
      in case posterior_loop hypotheses posterior new_posterior signal context [0..<n] h1 of
           (Inl e, h2) \<Rightarrow> (Inl e, h2)
         | (Inr _, h2) \<Rightarrow> (Inr (length h2), h2 @ [normalize_logprobs (h2 ! new_posterior)]))"

section \<open>The model of \<^verbatim>\<open>learn_pragmatics.py\<close>\<close>

text \<open>
  The older script has the same functions on Python lists. Its hypotheses are
  \<^verbatim>\<open>[language, perspective]\<close> pairs without a pragmatic level, and its
  \<^verbatim>\<open>update_posterior\<close> always uses \<^verbatim>\<open>list2_spkr1\<close>. It tests a row entry with
  \<^verbatim>\<open>== '1'\<close>, builds its vectors with \<^verbatim>\<open>append\<close>, takes the logarithm of the
  softmax with \<^verbatim>\<open>math.log\<close>, and finds the signal with \<^verbatim>\<open>signals.index\<close>. The
  noise loop is the same, so \<open>noisy_loop\<close> is shared.
\<close>

type_synonym lp_pair = "language \<times> real"

definition calc_mental_state_lp :: "real \<Rightarrow> real list \<Rightarrow> error + real list" where
  "calc_mental_state_lp perspective context =
     ebind (comprehension (\<lambda>o'. py_log (1 - \<bar>perspective - o'\<bar>)) context)
       (\<lambda>distribution. Inr (normalize_logprobs distribution))"

definition list1_lit_spkr_lp :: "char \<Rightarrow> nat \<Rightarrow> language \<Rightarrow> real list \<Rightarrow> error + real" where
  "list1_lit_spkr_lp signal meaning language ref_distribution =
     ebind (comprehension (\<lambda>s.
              ebind (index_r language meaning) (\<lambda>row.
              ebind (index_r row s) (\<lambda>c. Inr (s, c = CHR ''1''))))
            [0..<length meanings]) (\<lambda>flags.
       let signals_for_r = map (\<lambda>(s, _). signals ! s) (filter snd flags);
           num_signals_for_r = length signals_for_r
       in if signal \<in> set signals_for_r then
            ebind (if num_signals_for_r = num_signals
                   then ebind (py_div 1 (int num_signals_for_r)) py_log
                   else ebind (py_div (1 - noise) (int num_signals_for_r)) py_log) (\<lambda>in_language.
            ebind (index_r ref_distribution meaning) (\<lambda>r. Inr (r + in_language)))
          else
            ebind (ebind (py_div noise (int num_signals - int num_signals_for_r)) py_log)
              (\<lambda>out_of_language.
            ebind (index_r ref_distribution meaning) (\<lambda>r. Inr (r + out_of_language))))"

definition list1_perception_matrix_lp :: "language \<Rightarrow> real list \<Rightarrow> error + real list list" where
  "list1_perception_matrix_lp language ref_distribution =
     comprehension (\<lambda>s.
         ebind (comprehension (\<lambda>m. list1_lit_spkr_lp s m language ref_distribution) meanings)
           (\<lambda>row. Inr (normalize_logprobs row)))
       signals"

definition spkr1_production_probs_lp :: "nat \<Rightarrow> language \<Rightarrow> real list \<Rightarrow> error + real list" where
  "spkr1_production_probs_lp meaning language mental_state =
     ebind (comprehension (\<lambda>s.
              ebind (list1_perception_matrix_lp language mental_state) (\<lambda>mat.
              ebind (index_r mat s) (\<lambda>row.
              ebind (index_r row meaning) (\<lambda>v. Inr (alpha * v)))))
            [0..<length signals])
       (\<lambda>signal_utility. comprehension py_log (softmax signal_utility))"

text \<open>\<^verbatim>\<open>signals.index(signal)\<close>: the first position, or ValueError.\<close>

fun list_index :: "'a list \<Rightarrow> 'a \<Rightarrow> error + nat" where
  "list_index [] x = Inl ValueError"
| "list_index (y # ys) x =
     (if y = x then Inr 0 else ebind (list_index ys x) (\<lambda>i. Inr (Suc i)))"

definition list2_spkr1_lp :: "char \<Rightarrow> nat \<Rightarrow> language \<Rightarrow> real list \<Rightarrow> error + real" where
  "list2_spkr1_lp signal meaning language ref_distribution =
     ebind (list_index signals signal) (\<lambda>s_index.
     ebind (spkr1_production_probs_lp meaning language ref_distribution) (\<lambda>speaker_probs.
       let noisy_speaker_probs = noisy_loop [0..<length speaker_probs] speaker_probs in
       ebind (index_r ref_distribution meaning) (\<lambda>r.
       ebind (index_r noisy_speaker_probs s_index) (\<lambda>n. Inr (r + n)))))"

definition update_posterior_lp ::
  "lp_pair list \<Rightarrow> real list \<Rightarrow> char \<Rightarrow> real list \<Rightarrow> error + real list" where
  "update_posterior_lp lp_pairs posterior signal context =
     ebind (comprehension (\<lambda>i.
              ebind (index_r lp_pairs i) (\<lambda>(language, perspective).
              ebind (calc_mental_state_lp perspective context) (\<lambda>ref_distribution.
              ebind (comprehension (\<lambda>meaning.
                       list2_spkr1_lp signal meaning language ref_distribution) meanings)
                (\<lambda>marginalize. Inr (posterior ! i + logsumexp marginalize)))))
            [0..<length posterior])
       (\<lambda>new_posterior. Inr (normalize_logprobs new_posterior))"

section \<open>The lexicons of \<^verbatim>\<open>learn_pragmatics.py\<close>\<close>

text \<open>
  The script builds \<^verbatim>\<open>languages\<close> at module level: for \<open>i\<close> from \<open>2^9\<close> down
  to 1 it takes \<^verbatim>\<open>format(i, 'b')\<close>, the binary digits of \<open>i\<close> without leading
  zeros, keeps the strings of at least 7 digits, pads them with zeros on the left
  to 9 digits, drops those whose last three digits (\<^verbatim>\<open>string[-3:]\<close>) or middle digits
  (\<^verbatim>\<open>string[3:-3]\<close>) are \<open>000\<close>, and appends the 3 x 3 matrix of the digits.
\<close>

fun format_b :: "nat \<Rightarrow> string" where
  "format_b i =
     (if i < 2 then [if i = 0 then CHR ''0'' else CHR ''1'']
      else format_b (i div 2) @ [if i mod 2 = 0 then CHR ''0'' else CHR ''1''])"

declare format_b.simps [simp del]

function pad_loop :: "string \<Rightarrow> string" where
  "pad_loop string = (if length string < 9 then pad_loop (CHR ''0'' # string) else string)"
  by pat_completeness auto
termination
  by (relation "measure (\<lambda>s. 9 - length s)") auto

declare pad_loop.simps [simp del]

fun languages_loop :: "nat list \<Rightarrow> language list \<Rightarrow> language list" where
  "languages_loop [] languages = languages"
| "languages_loop (i # idx) languages =
     (let string = format_b i in
      if 7 \<le> length string then
        (let string = pad_loop string in
         if drop (length string - 3) string \<noteq> ''000''
            \<and> drop 3 (take (length string - 3) string) \<noteq> ''000''
         then languages_loop idx
                (languages @ [[[string ! 0, string ! 1, string ! 2],
                               [string ! 3, string ! 4, string ! 5],
                               [string ! 6, string ! 7, string ! 8]]])
         else languages_loop idx languages)
      else languages_loop idx languages)"

definition languages :: "language list" where
  "languages = languages_loop (rev [1..<Suc (2 ^ 9)]) []"

section \<open>Closed forms used in the statements\<close>

text \<open>
  The value the literal listener adds to \<open>ref_distribution[meaning]\<close>, the matrix and
  the production probabilities built from it, for a language of three rows of three
  columns. They are related to the functions of the source by the lemmas below.
\<close>

definition lit_weight :: "char list \<Rightarrow> nat \<Rightarrow> real" where
  "lit_weight row i =
     (let k = length (filter (\<lambda>c. c \<noteq> CHR ''0'') row) in
      if row ! i \<noteq> CHR ''0''
      then (if k < length signals then ln ((1 - noise) / real k) else ln (1 / real k))
      else ln (noise / (real (length signals) - real k)))"

definition lit_joint :: "language \<Rightarrow> real list \<Rightarrow> nat \<Rightarrow> nat \<Rightarrow> real" where
  "lit_joint language ref_distribution s m = ref_distribution ! m + lit_weight (language ! m) s"

definition perception_rows :: "language \<Rightarrow> real list \<Rightarrow> real list list" where
  "perception_rows language ref_distribution =
     map (\<lambda>s. normalize_logprobs (map (lit_joint language ref_distribution s) [0, 1, 2])) [0, 1, 2]"

definition production_probs :: "nat \<Rightarrow> language \<Rightarrow> real list \<Rightarrow> real list" where
  "production_probs meaning language ref_distribution =
     map ln (softmax (map (\<lambda>s. alpha * (perception_rows language ref_distribution ! s ! meaning)) [0, 1, 2]))"

definition wf_language :: "language \<Rightarrow> bool" where
  "wf_language language \<longleftrightarrow> length language = 3 \<and> (\<forall>row\<in>set language. length row = 3)"

text \<open>
  Binary strings of a fixed width and their values, the matrix read off a string of
  nine digits, and the lexicons the specification calls valid: three rows of three
  binary entries, each row with at least one \<open>1\<close>.
\<close>

fun bin_digits :: "nat \<Rightarrow> nat \<Rightarrow> string" where
  "bin_digits 0 i = []"
| "bin_digits (Suc n) i = bin_digits n (i div 2) @ [if i mod 2 = 0 then CHR ''0'' else CHR ''1'']"

definition bin_value :: "string \<Rightarrow> nat" where
  "bin_value s = foldl (\<lambda>acc c. 2 * acc + (if c = CHR ''1'' then 1 else 0)) 0 s"

definition binary :: "string \<Rightarrow> bool" where
  "binary s \<longleftrightarrow> set s \<subseteq> {CHR ''0'', CHR ''1''}"

definition matrix_of :: "string \<Rightarrow> language" where
  "matrix_of string = [[string ! 0, string ! 1, string ! 2],
                      [string ! 3, string ! 4, string ! 5],
                      [string ! 6, string ! 7, string ! 8]]"

definition valid_lexicon :: "language \<Rightarrow> bool" where
  "valid_lexicon m \<longleftrightarrow>
     length m = 3 \<and> (\<forall>row\<in>set m. length row = 3 \<and> binary row \<and> CHR ''1'' \<in> set row)"

definition accepted :: "nat \<Rightarrow> bool" where
  "accepted i \<longleftrightarrow> 64 \<le> i \<and> i < 512 \<and> drop 6 (bin_digits 9 i) \<noteq> ''000''
                  \<and> drop 3 (take 6 (bin_digits 9 i)) \<noteq> ''000''"

definition valid_rows :: "char list list" where
  "valid_rows = [''111'', ''110'', ''101'', ''100'', ''011'', ''010'', ''001'']"

definition valid_lexicons :: "language list" where
  "valid_lexicons =
     map (\<lambda>(r0, r1, r2). [r0, r1, r2]) (List.product valid_rows (List.product valid_rows valid_rows))"

section \<open>Reference formulations\<close>

text \<open>
  The posterior update as section 4.7 of the specification words it: for every
  hypothesis the reference distribution, for every meaning the listener value (the
  literal listener at pragmatic level 0, the pragmatic listener at level 1), the
  marginal over the meanings added to the hypothesis's entry, and the normalisation of
  the whole vector at the end. It is compared with \<open>update_posterior\<close> below.
\<close>

definition spec_update_posterior ::
  "hypothesis list \<Rightarrow> real list \<Rightarrow> char \<Rightarrow> real list \<Rightarrow> error + real list" where
  "spec_update_posterior hypotheses posterior signal context =
     ebind (comprehension (\<lambda>i.
              ebind (index_r hypotheses i) (\<lambda>(lexicon, perspective, pragmatic_level).
              ebind (calc_mental_state perspective context) (\<lambda>ref_distribution.
              ebind (comprehension (\<lambda>m.
                       if pragmatic_level = 0
                       then list1_lit_spkr signal m lexicon ref_distribution
                       else list2_spkr1 signal m lexicon ref_distribution) meanings)
                (\<lambda>listener. Inr (posterior ! i + logsumexp listener)))))
            [0..<length posterior])
       (\<lambda>updated. Inr (normalize_logprobs updated))"

text \<open>
  The closed form of two updates with the same observation: the normalisation of the
  posterior plus twice the marginal likelihood of every hypothesis.
\<close>

definition doubled_evidence ::
  "hypothesis list \<Rightarrow> real list \<Rightarrow> char \<Rightarrow> real list \<Rightarrow> error + real list" where
  "doubled_evidence hypotheses posterior signal context =
     ebind (comprehension (\<lambda>i.
              ebind (index_r hypotheses i) (\<lambda>h. marginal_likelihood h signal context))
            [0..<length posterior])
       (\<lambda>L. Inr (normalize_logprobs (map (\<lambda>i. posterior ! i + 2 * L ! i) [0..<length posterior])))"

text \<open>
  The pragmatic listener as section 4.5 of the specification words it: every term of the
  noisy value of a signal is taken from the output \<open>p\<close> of the pragmatic speaker.
\<close>

definition spec_noisy_probs :: "real list \<Rightarrow> real list" where
  "spec_noisy_probs p =
     map (\<lambda>s. logsumexp [ln (1 - noise) + p ! s,
                  ln noise + logsumexp (map (\<lambda>os. p ! os) (filter (\<lambda>os. os \<noteq> s) [0..<length p]))
                    - ln (real num_signals - 1)])
       [0..<length p]"

definition spec_list2_spkr1 :: "char \<Rightarrow> nat \<Rightarrow> language \<Rightarrow> real list \<Rightarrow> error + real" where
  "spec_list2_spkr1 signal meaning language ref_distribution =
     ebind (spkr1_production_probs meaning language ref_distribution) (\<lambda>p.
     ebind (index_r ref_distribution meaning) (\<lambda>r.
       case filter (\<lambda>i. signals ! i = signal) [0..<length signals] of
         [i] \<Rightarrow> Inr (r + spec_noisy_probs p ! i)
       | _ \<Rightarrow> Inl ValueError))"

text \<open>
  The lexicon that pairs meaning \<open>i\<close> with signal \<open>i\<close>, and the mental state of
  perspective 1 in the context \<open>[0.1, 0.2, 0.9]\<close>: the probabilities 1/12, 1/6, 3/4.
\<close>

definition identity_lexicon :: language where
  "identity_lexicon = [''100'', ''010'', ''001'']"

definition example_mental_state :: "real list" where
  "example_mental_state = [ln (1/12), ln (1/6), ln (3/4)]"

section \<open>Properties\<close>

subsection \<open>Error propagation and the array-filling loops\<close>

lemma ebind_simps [simp]:
  "ebind (Inl e) f = Inl e" "ebind (Inr v) f = f v"
  by (simp_all add: ebind_def)

lemma comprehension_map:
  "\<forall>x\<in>set xs. f x = Inr (g x) \<Longrightarrow> comprehension f xs = Inr (map g xs)"
  by (induction xs) auto

lemma comprehension_Inl:
  "comprehension f xs = Inl e \<Longrightarrow> \<exists>x\<in>set xs. f x = Inl e"
  by (induction xs) (auto split: sum.splits)

lemma comprehension_fails:
  "x \<in> set xs \<Longrightarrow> f x = Inl e \<Longrightarrow> \<exists>e'. comprehension f xs = Inl e'"
  by (induction xs) (auto split: sum.splits)

lemma fill_loop_from:
  "length arr = n \<Longrightarrow> k \<le> n \<Longrightarrow>
   fill_loop f [k..<n] arr =
     (case comprehension f [k..<n] of Inl e \<Rightarrow> Inl e | Inr vs \<Rightarrow> Inr (take k arr @ vs))"
proof (induction "n - k" arbitrary: k arr)
  case 0
  then show ?case by simp
next
  case (Suc d)
  then have kn: "k < n" by simp
  then have upt: "[k..<n] = k # [Suc k..<n]" by (simp add: upt_conv_Cons)
  show ?case
  proof (cases "f k")
    case (Inl e)
    then show ?thesis by (simp add: upt)
  next
    case (Inr v)
    have len: "length (arr[k := v]) = n" using Suc.prems by simp
    have d: "d = n - Suc k" using Suc.hyps by simp
    have ih: "fill_loop f [Suc k..<n] (arr[k := v]) =
      (case comprehension f [Suc k..<n] of Inl e \<Rightarrow> Inl e
       | Inr vs \<Rightarrow> Inr (take (Suc k) (arr[k := v]) @ vs))"
      using Suc.hyps(1)[OF d len] kn by simp
    have tk: "take (Suc k) (arr[k := v]) = take k arr @ [v]"
      using kn Suc.prems by (simp add: take_Suc_conv_app_nth)
    show ?thesis using Inr kn Suc.prems
      by (simp add: upt ih tk split: sum.splits)
  qed
qed

lemma fill_loop_upt:
  "length arr = n \<Longrightarrow> fill_loop f [0..<n] arr = comprehension f [0..<n]"
  using fill_loop_from [of arr n 0 f] by (simp split: sum.splits)

subsection \<open>Log-space normalisation and the mental state\<close>

lemma calc_mental_state_ok:
  assumes "\<forall>c\<in>set context. \<bar>perspective - c\<bar> < 1"
  shows "calc_mental_state perspective context =
           Inr (normalize_logprobs (map (\<lambda>c. ln (1 - \<bar>perspective - c\<bar>)) context))"
proof -
  have "comprehension (\<lambda>o'. py_log (1 - \<bar>perspective - context ! o'\<bar>)) [0..<length context]
        = Inr (map (\<lambda>o'. ln (1 - \<bar>perspective - context ! o'\<bar>)) [0..<length context])"
    using assms by (intro comprehension_map) (simp add: py_log_def)
  moreover have "map (\<lambda>o'. ln (1 - \<bar>perspective - context ! o'\<bar>)) [0..<length context]
        = map (\<lambda>c. ln (1 - \<bar>perspective - c\<bar>)) context"
    by (rule nth_equalityI) simp_all
  ultimately show ?thesis
    by (simp add: calc_mental_state_def fill_loop_upt)
qed

lemma sum_list_exp_nonneg: "0 \<le> sum_list (map exp (vs::real list))"
  by (induction vs) (simp_all add: add_nonneg_nonneg)

lemma sum_list_exp_pos: "vs \<noteq> [] \<Longrightarrow> 0 < sum_list (map exp (vs::real list))"
  by (cases vs) (simp_all add: add_pos_nonneg sum_list_exp_nonneg)

lemma exp_logsumexp: "vs \<noteq> [] \<Longrightarrow> exp (logsumexp vs) = sum_list (map exp vs)"
  by (simp add: logsumexp_def sum_list_exp_pos)

lemma sum_list_exp_shift:
  "sum_list (map exp (map (\<lambda>v. v - c) vs)) = sum_list (map exp vs) / exp (c::real)"
  by (induction vs) (simp_all add: exp_diff add_divide_distrib)

lemma normalize_logprobs_sums_to_one:
  "vs \<noteq> [] \<Longrightarrow> sum_list (map exp (normalize_logprobs vs)) = 1"
  using sum_list_exp_pos [of vs]
  by (simp add: normalize_logprobs_def sum_list_exp_shift exp_logsumexp del: map_map)

lemma logsumexp_normalize_logprobs:
  "vs \<noteq> [] \<Longrightarrow> logsumexp (normalize_logprobs vs) = 0"
  using normalize_logprobs_sums_to_one [of vs] by (simp add: logsumexp_def)

lemma calc_mental_state_raises:
  assumes "\<exists>c\<in>set ctx. 1 \<le> \<bar>perspective - c\<bar>"
  shows "\<exists>e. calc_mental_state perspective ctx = Inl e"
proof -
  from assms obtain i where i: "i < length ctx" "1 \<le> \<bar>perspective - ctx ! i\<bar>"
    by (auto simp: in_set_conv_nth)
  then have "py_log (1 - \<bar>perspective - ctx ! i\<bar>) = Inl ValueError"
    by (simp add: py_log_def)
  with i(1) obtain e where
    "comprehension (\<lambda>o'. py_log (1 - \<bar>perspective - ctx ! o'\<bar>)) [0..<length ctx] = Inl e"
    using comprehension_fails [of i "[0..<length ctx]" "\<lambda>o'. py_log (1 - \<bar>perspective - ctx ! o'\<bar>)"]
    by auto
  then show ?thesis
    by (simp add: calc_mental_state_def fill_loop_upt)
qed

text \<open>
  C6. \<open>calc_mental_state\<close> raises exactly when some context entry is at distance at
  least 1 from the perspective. When every entry is closer than 1 it returns the
  normalisation of the weights \<open>ln (1 - |perspective - c|)\<close>, whose exponentials sum
  to 1 for a context that is not empty.
\<close>

theorem calc_mental_state_domain:
  "((\<exists>e. calc_mental_state perspective ctx = Inl e) \<longleftrightarrow> (\<exists>c\<in>set ctx. 1 \<le> \<bar>perspective - c\<bar>))
   \<and> ((\<forall>c\<in>set ctx. \<bar>perspective - c\<bar> < 1) \<longrightarrow>
        calc_mental_state perspective ctx =
          Inr (normalize_logprobs (map (\<lambda>c. ln (1 - \<bar>perspective - c\<bar>)) ctx))
        \<and> (ctx \<noteq> [] \<longrightarrow>
             sum_list (map exp (normalize_logprobs (map (\<lambda>c. ln (1 - \<bar>perspective - c\<bar>)) ctx))) = 1))"
proof (intro conjI impI iffI)
  assume "\<exists>e. calc_mental_state perspective ctx = Inl e"
  then show "\<exists>c\<in>set ctx. 1 \<le> \<bar>perspective - c\<bar>"
    using calc_mental_state_ok [of ctx perspective] by fastforce
next
  assume "\<exists>c\<in>set ctx. 1 \<le> \<bar>perspective - c\<bar>"
  then show "\<exists>e. calc_mental_state perspective ctx = Inl e"
    by (rule calc_mental_state_raises)
next
  assume "\<forall>c\<in>set ctx. \<bar>perspective - c\<bar> < 1"
  then show "calc_mental_state perspective ctx =
          Inr (normalize_logprobs (map (\<lambda>c. ln (1 - \<bar>perspective - c\<bar>)) ctx))"
    by (rule calc_mental_state_ok)
next
  assume "ctx \<noteq> []"
  then show "sum_list (map exp (normalize_logprobs (map (\<lambda>c. ln (1 - \<bar>perspective - c\<bar>)) ctx))) = 1"
    by (simp add: normalize_logprobs_sums_to_one)
qed

theorem calc_mental_state_domain_witness:
  "(\<exists>e. calc_mental_state 1 [0, 2/10, 9/10] = Inl e)
   \<and> calc_mental_state 1 [1/10, 2/10, 9/10] =
       Inr (normalize_logprobs [ln (1/10), ln (2/10), ln (9/10)])
   \<and> sum_list (map exp (normalize_logprobs [ln (1/10), ln (2/10), ln (9/10)])) = 1"
  using calc_mental_state_domain [of 1 "[0, 2/10, 9/10]"]
        calc_mental_state_domain [of 1 "[1/10, 2/10, 9/10]"]
  by simp


subsection \<open>Literal listener\<close>

lemma upt_3: "[0..<3] = [0, 1, 2]"
  by (simp add: upt_rec)

lemma length_3_cases: "length xs = 3 \<Longrightarrow> \<exists>a b c. xs = [a, b, c]"
  by (cases xs; cases "tl xs"; cases "tl (tl xs)") auto

lemma signals_where_3:
  "signals_where [a, b, c] =
     Inr ((if a \<noteq> CHR ''0'' then ''a'' else []) @ (if b \<noteq> CHR ''0'' then ''b'' else [])
          @ (if c \<noteq> CHR ''0'' then ''c'' else []))"
  by (simp add: signals_where_def signals_def index_r_def upt_3)

lemma list1_lit_spkr_row:
  assumes "meaning < length language" "meaning < length ref_distribution"
    and "language ! meaning = [a, b, c]" and "i < 3"
  shows "list1_lit_spkr (signals ! i) meaning language ref_distribution =
      Inr (ref_distribution ! meaning +
        (let k = length (filter (\<lambda>c. c \<noteq> CHR ''0'') [a, b, c]) in
         if [a, b, c] ! i \<noteq> CHR ''0''
         then (if k < length signals then ln ((1 - noise) / real k) else ln (1 / real k))
         else ln (noise / (real (length signals) - real k))))"
proof -
  from \<open>i < 3\<close> consider "i = 0" | "i = 1" | "i = 2" by linarith
  then show ?thesis
  proof cases
    case 1
    then show ?thesis using assms
      by (simp add: list1_lit_spkr_def signals_where_3 index_r_def py_div_def py_log_def
          noise_def signals_def Let_def)
  next
    case 2
    then show ?thesis using assms
      by (simp add: list1_lit_spkr_def signals_where_3 index_r_def py_div_def py_log_def
          noise_def signals_def Let_def)
  next
    case 3
    then show ?thesis using assms
      by (simp add: list1_lit_spkr_def signals_where_3 index_r_def py_div_def py_log_def
          noise_def signals_def Let_def)
  qed
qed

lemma comprehension_signals:
  "comprehension f signals =
     ebind (f (signals ! 0)) (\<lambda>x. ebind (f (signals ! 1)) (\<lambda>y. ebind (f (signals ! 2)) (\<lambda>z. Inr [x, y, z])))"
  by (simp add: signals_def ebind_def split: sum.splits)

text \<open>
  C3. For a meaning whose row has one entry per signal, the literal listener returns
  \<open>ref_distribution[meaning] + ln ((1 - noise) / k)\<close> for a usable signal when the
  count \<open>k\<close> of usable signals is below the alphabet size,
  \<open>ref_distribution[meaning] + ln (1 / k)\<close> for a usable signal when \<open>k\<close> is the
  alphabet size, and \<open>ref_distribution[meaning] + ln (noise / (num_signals - k))\<close>
  for a signal that is not usable.
\<close>

theorem list1_lit_spkr_formula:
  assumes "meaning < length language" and "meaning < length ref_distribution"
    and "length (language ! meaning) = length signals" and "i < length signals"
  shows "let k = length (filter (\<lambda>c. c \<noteq> CHR ''0'') (language ! meaning));
             usable = (language ! meaning ! i \<noteq> CHR ''0'');
             result = list1_lit_spkr (signals ! i) meaning language ref_distribution
         in k \<le> length signals
          \<and> (usable \<and> k < length signals \<longrightarrow>
               result = Inr (ref_distribution ! meaning + ln ((1 - noise) / real k)))
          \<and> (usable \<and> k = length signals \<longrightarrow>
               result = Inr (ref_distribution ! meaning + ln (1 / real k)))
          \<and> (\<not> usable \<longrightarrow>
               result = Inr (ref_distribution ! meaning
                             + ln (noise / (real (length signals) - real k))))"
proof -
  have "length (language ! meaning) = 3"
    using assms(3) by (simp add: signals_def)
  then obtain a b c where row: "language ! meaning = [a, b, c]"
    using length_3_cases by blast
  have i: "i < 3" using assms(4) by (simp add: signals_def)
  have k: "length (filter (\<lambda>c. c \<noteq> CHR ''0'') (language ! meaning)) \<le> length signals"
    using assms(3) length_filter_le [of "\<lambda>c. c \<noteq> CHR ''0''" "language ! meaning"] by simp
  show ?thesis
    unfolding Let_def
    using list1_lit_spkr_row [OF assms(1,2) row i] k
    by (auto simp: Let_def row)
qed

theorem list1_lit_spkr_formula_witness:
  "list1_lit_spkr (CHR ''a'') 0 [''100'', ''111'', ''001''] [0, 0, 0] = Inr (0 + ln ((1 - noise) / 1))
   \<and> list1_lit_spkr (CHR ''b'') 1 [''100'', ''111'', ''001''] [0, 0, 0] = Inr (0 + ln (1 / 3))
   \<and> list1_lit_spkr (CHR ''b'') 2 [''100'', ''111'', ''001''] [0, 0, 0] = Inr (0 + ln (noise / (3 - 1)))"
  using list1_lit_spkr_formula [of 0 "[''100'', ''111'', ''001'']" "[0, 0, 0]" 0]
        list1_lit_spkr_formula [of 1 "[''100'', ''111'', ''001'']" "[0, 0, 0]" 1]
        list1_lit_spkr_formula [of 2 "[''100'', ''111'', ''001'']" "[0, 0, 0]" 1]
  by (simp add: signals_def Let_def)

text \<open>
  C8. For a meaning whose row has at least one usable signal, the exponentials of
  \<open>list1_lit_spkr s meaning language ref_distribution - ref_distribution[meaning]\<close>
  over all signals \<open>s\<close> sum to 1.
\<close>

theorem list1_lit_spkr_mass:
  assumes "meaning < length language" and "meaning < length ref_distribution"
    and "length (language ! meaning) = length signals"
    and "\<exists>c\<in>set (language ! meaning). c \<noteq> CHR ''0''"
  shows "\<exists>vs. comprehension (\<lambda>s. list1_lit_spkr s meaning language ref_distribution) signals = Inr vs
           \<and> length vs = length signals
           \<and> sum_list (map (\<lambda>v. exp (v - ref_distribution ! meaning)) vs) = 1"
proof -
  have "length (language ! meaning) = 3"
    using assms(3) by (simp add: signals_def)
  then obtain a b c where row: "language ! meaning = [a, b, c]"
    using length_3_cases by blast
  have nz: "a \<noteq> CHR ''0'' \<or> b \<noteq> CHR ''0'' \<or> c \<noteq> CHR ''0''"
    using assms(4) by (auto simp: row)
  define k where "k = length (filter (\<lambda>c. c \<noteq> CHR ''0'') [a, b, c])"
  define w where "w = (\<lambda>i::nat. if [a, b, c] ! i \<noteq> CHR ''0''
         then (if k < length signals then ln ((1 - noise) / real k) else ln (1 / real k))
         else ln (noise / (real (length signals) - real k)))"
  have r: "list1_lit_spkr (signals ! i) meaning language ref_distribution
             = Inr (ref_distribution ! meaning + w i)" if "i < 3" for i
    using list1_lit_spkr_row [OF assms(1,2) row that] by (simp add: w_def k_def Let_def)
  have comp: "comprehension (\<lambda>s. list1_lit_spkr s meaning language ref_distribution) signals
      = Inr (map (\<lambda>i. ref_distribution ! meaning + w i) [0, 1, 2])"
    by (simp add: comprehension_signals r)
  have mass: "exp (w 0) + exp (w 1) + exp (w 2) = 1"
    using nz
    by (cases "a = CHR ''0''"; cases "b = CHR ''0''"; cases "c = CHR ''0''")
       (simp_all add: w_def k_def signals_def noise_def)
  have len: "length signals = 3" by (simp add: signals_def)
  show ?thesis
    unfolding comp len using mass by simp
qed

theorem list1_lit_spkr_mass_witness:
  "\<exists>vs. comprehension (\<lambda>s. list1_lit_spkr s 1 [''100'', ''110'', ''001''] [ln (1/4), ln (1/2), ln (1/4)]) signals
           = Inr vs
     \<and> length vs = length signals
     \<and> sum_list (map (\<lambda>v. exp (v - [ln (1/4), ln (1/2), ln (1/4)] ! 1)) vs) = 1"
  using list1_lit_spkr_mass [of 1 "[''100'', ''110'', ''001'']" "[ln (1/4), ln (1/2), ln (1/4)]"]
  by (simp add: signals_def)

subsection \<open>The listener and speaker functions on well-formed input\<close>

lemma meanings_upt: "meanings = [0..<3]" "length meanings = 3"
  by (simp_all add: meanings_def upt_3)

lemma signals_upt: "length signals = 3"
  by (simp add: signals_def)

lemma list1_lit_spkr_wf:
  assumes "wf_language language" "3 \<le> length ref_distribution" "s < 3" "m < 3"
  shows "list1_lit_spkr (signals ! s) m language ref_distribution
           = Inr (lit_joint language ref_distribution s m)"
proof -
  have m: "m < length language" "m < length ref_distribution"
    using assms by (simp_all add: wf_language_def)
  have "length (language ! m) = 3"
    using assms(1,4) by (simp add: wf_language_def)
  then obtain a b c where row: "language ! m = [a, b, c]"
    using length_3_cases by blast
  show ?thesis
    using list1_lit_spkr_row [OF m row assms(3)]
    by (simp add: lit_joint_def lit_weight_def row)
qed

lemma list1_perception_matrix_wf:
  assumes "wf_language language" "3 \<le> length ref_distribution"
  shows "list1_perception_matrix language ref_distribution
           = Inr (perception_rows language ref_distribution)"
proof -
  have row: "fill_loop (\<lambda>m. list1_lit_spkr (signals ! s) m language ref_distribution)
                  meanings (replicate (length meanings) 0)
             = Inr (map (lit_joint language ref_distribution s) [0..<3])" if "s < 3" for s
    using that assms
    by (simp add: meanings_upt fill_loop_upt comprehension_map list1_lit_spkr_wf)
  show ?thesis
    unfolding list1_perception_matrix_def signals_upt
    by (subst fill_loop_upt) (simp_all add: comprehension_map row perception_rows_def upt_3)
qed

lemma perception_rows_length:
  "length (perception_rows language ref_distribution) = 3"
  "s < 3 \<Longrightarrow> length (perception_rows language ref_distribution ! s) = 3"
  by (auto simp: perception_rows_def normalize_logprobs_def less_Suc_eq numeral_3_eq_3)

lemma spkr1_production_probs_wf:
  assumes "wf_language language" "3 \<le> length ref_distribution" "m < 3"
  shows "spkr1_production_probs m language ref_distribution
           = Inr (production_probs m language ref_distribution)"
proof -
  have "comprehension (\<lambda>s.
              ebind (list1_perception_matrix language ref_distribution) (\<lambda>mat.
              ebind (index_r mat s) (\<lambda>row.
              ebind (index_r row m) (\<lambda>v. Inr (alpha * v))))) [0..<3]
        = Inr (map (\<lambda>s. alpha * (perception_rows language ref_distribution ! s ! m)) [0..<3])"
    using assms
    by (intro comprehension_map)
       (simp add: list1_perception_matrix_wf index_r_def perception_rows_length)
  then show ?thesis
    by (simp add: spkr1_production_probs_def signals_upt production_probs_def upt_3)
qed

lemma production_probs_length: "length (production_probs m language ref_distribution) = 3"
  by (simp add: production_probs_def softmax_def)

lemma list2_spkr1_wf:
  assumes "wf_language language" "3 \<le> length ref_distribution" "s < 3" "m < 3"
  shows "list2_spkr1 (signals ! s) m language ref_distribution
           = Inr (ref_distribution ! m
                  + noisy_loop [0..<3] (production_probs m language ref_distribution) ! s)"
proof -
  have "filter (\<lambda>i. signals ! i = signals ! s) [0..<length signals] = [s]"
    using assms(3) by (auto simp: signals_def upt_3 less_Suc_eq numeral_3_eq_3)
  then show ?thesis
    using assms
    by (simp add: list2_spkr1_def spkr1_production_probs_wf production_probs_length index_r_def)
qed


subsection \<open>Posterior update\<close>

lemma comprehension_cong:
  "(\<And>x. x \<in> set xs \<Longrightarrow> f x = g x) \<Longrightarrow> comprehension f xs = comprehension g xs"
  by (induction xs) (auto split: sum.splits)

lemma comprehension_length:
  "comprehension f xs = Inr ys \<Longrightarrow> length ys = length xs"
  by (induction xs arbitrary: ys) (auto split: sum.splits)

lemma comprehension_nth:
  "comprehension f xs = Inr ys \<Longrightarrow> i < length xs \<Longrightarrow> f (xs ! i) = Inr (ys ! i)"
proof (induction xs arbitrary: ys i)
  case Nil
  then show ?case by simp
next
  case (Cons x xs)
  then show ?case
    by (cases i) (auto split: sum.splits)
qed

lemma update_posterior_comprehension:
  "update_posterior hypotheses posterior signal context =
     ebind (comprehension (\<lambda>i.
              ebind (index_r hypotheses i) (\<lambda>h.
              ebind (marginal_likelihood h signal context) (\<lambda>l. Inr (posterior ! i + l))))
            [0..<length posterior])
       (\<lambda>new_posterior. Inr (normalize_logprobs new_posterior))"
  by (simp add: update_posterior_def fill_loop_upt)

lemma marginal_likelihood_levels:
  "pragmatic_lvl = 0 \<or> pragmatic_lvl = 1 \<Longrightarrow>
   marginal_likelihood (language, perspective, pragmatic_lvl) signal context =
     ebind (calc_mental_state perspective context) (\<lambda>ref_distribution.
     ebind (comprehension (\<lambda>m.
              if pragmatic_lvl = 0
              then list1_lit_spkr signal m language ref_distribution
              else list2_spkr1 signal m language ref_distribution) meanings)
       (\<lambda>listener. Inr (logsumexp listener)))"
  by (auto simp: marginal_likelihood_def meanings_upt fill_loop_upt intro!: arg_cong2 [where f = ebind])

text \<open>
  C1. When every hypothesis has pragmatic level 0 or 1, \<open>update_posterior\<close> computes
  what the specification describes: per hypothesis the mental state, per meaning the
  literal listener at level 0 and the pragmatic listener at level 1, the logsumexp over
  the meanings added to \<open>posterior[i]\<close>, and \<open>normalize_logprobs\<close> of the
  result; it raises where that computation raises.
\<close>

theorem update_posterior_refines_spec:
  assumes "\<forall>h\<in>set hypotheses. snd (snd h) = 0 \<or> snd (snd h) = 1"
  shows "update_posterior hypotheses posterior signal context
           = spec_update_posterior hypotheses posterior signal context"
proof -
  have "ebind (index_r hypotheses i) (\<lambda>h.
          ebind (marginal_likelihood h signal context) (\<lambda>l. Inr (posterior ! i + l)))
      = ebind (index_r hypotheses i) (\<lambda>(lexicon, perspective, pragmatic_level).
              ebind (calc_mental_state perspective context) (\<lambda>ref_distribution.
              ebind (comprehension (\<lambda>m.
                       if pragmatic_level = 0
                       then list1_lit_spkr signal m lexicon ref_distribution
                       else list2_spkr1 signal m lexicon ref_distribution) meanings)
                (\<lambda>listener. Inr (posterior ! i + logsumexp listener))))" for i
  proof (cases "i < length hypotheses")
    case False
    then show ?thesis by (simp add: index_r_def)
  next
    case True
    obtain l p lvl where h: "hypotheses ! i = (l, p, lvl)"
      by (cases "hypotheses ! i") auto
    have "lvl = 0 \<or> lvl = 1"
      using assms True h nth_mem [OF True] by fastforce
    then show ?thesis
      using True h
      by (simp add: index_r_def marginal_likelihood_levels ebind_def split: sum.splits)
  qed
  then show ?thesis
    by (simp add: update_posterior_comprehension spec_update_posterior_def)
qed

theorem update_posterior_refines_spec_witness:
  "update_posterior
     [([''100'', ''010'', ''001''], 1, 0), ([''111'', ''010'', ''011''], 0, 1)]
     [ln (1/2), ln (1/2)] (CHR ''a'') [1/10, 2/10, 9/10]
   = spec_update_posterior
     [([''100'', ''010'', ''001''], 1, 0), ([''111'', ''010'', ''011''], 0, 1)]
     [ln (1/2), ln (1/2)] (CHR ''a'') [1/10, 2/10, 9/10]"
  using update_posterior_refines_spec
    [of "[([''100'', ''010'', ''001''], 1, 0), ([''111'', ''010'', ''011''], 0, 1)]"
        "[ln (1/2), ln (1/2)]" "CHR ''a''" "[1/10, 2/10, 9/10]"]
  by simp

lemma marginal_likelihood_wf:
  assumes "wf_language language" "3 \<le> length context"
    and "\<forall>c\<in>set context. \<bar>perspective - c\<bar> < 1" and "s < 3"
  shows "\<exists>l. marginal_likelihood (language, perspective, lvl) (signals ! s) context = Inr l"
proof -
  define ref where "ref = normalize_logprobs (map (\<lambda>c. ln (1 - \<bar>perspective - c\<bar>)) context)"
  have ms: "calc_mental_state perspective context = Inr ref"
    using assms(3) by (simp add: calc_mental_state_ok ref_def)
  have len: "3 \<le> length ref"
    using assms(2) by (simp add: ref_def normalize_logprobs_def)
  have l1: "fill_loop (\<lambda>m. list1_lit_spkr (signals ! s) m language ref)
                 meanings (replicate (length meanings) 0)
            = Inr (map (lit_joint language ref s) [0..<3])"
    using assms(1,4) len
    by (simp add: meanings_upt fill_loop_upt comprehension_map list1_lit_spkr_wf)
  have l2: "fill_loop (\<lambda>m. list2_spkr1 (signals ! s) m language ref)
                 meanings (replicate (length meanings) 0)
            = Inr (map (\<lambda>m. ref ! m + noisy_loop [0..<3] (production_probs m language ref) ! s) [0..<3])"
    using assms(1,4) len
    by (simp add: meanings_upt fill_loop_upt comprehension_map list2_spkr1_wf)
  show ?thesis
    by (simp add: marginal_likelihood_def ms l1 l2)
qed

lemma update_posterior_returns:
  assumes "length posterior \<le> length hypotheses"
    and "\<forall>h\<in>set hypotheses. wf_language (fst h) \<and> (\<forall>c\<in>set context. \<bar>fst (snd h) - c\<bar> < 1)"
    and "3 \<le> length context" and "s < 3"
  shows "\<exists>v. update_posterior hypotheses posterior (signals ! s) context = Inr v"
proof -
  have "\<exists>l. marginal_likelihood (hypotheses ! i) (signals ! s) context = Inr l"
    if "i < length posterior" for i
  proof -
    have mem: "hypotheses ! i \<in> set hypotheses"
      using that assms(1) by simp
    obtain l p lvl where h: "hypotheses ! i = (l, p, lvl)"
      by (cases "hypotheses ! i") auto
    show ?thesis
      using marginal_likelihood_wf [of l "context" p s lvl] assms(2-4) mem h by fastforce
  qed
  then obtain L where L: "\<forall>i<length posterior.
      marginal_likelihood (hypotheses ! i) (signals ! s) context = Inr (L i)"
    by metis
  have "comprehension (\<lambda>i.
              ebind (index_r hypotheses i) (\<lambda>h.
              ebind (marginal_likelihood h (signals ! s) context) (\<lambda>l. Inr (posterior ! i + l))))
            [0..<length posterior]
        = Inr (map (\<lambda>i. posterior ! i + L i) [0..<length posterior])"
    using L assms(1) by (intro comprehension_map) (simp add: index_r_def)
  then show ?thesis
    by (simp add: update_posterior_comprehension)
qed

text \<open>
  C4. A vector that \<open>update_posterior\<close> returns for a posterior that is not empty is
  normalised: the exponentials of its entries sum to 1, and its logsumexp is 0.
\<close>

theorem update_posterior_normalized:
  assumes "update_posterior hypotheses posterior signal context = Inr v"
    and "posterior \<noteq> []"
  shows "sum_list (map exp v) = 1 \<and> logsumexp v = 0"
proof -
  from assms(1) obtain np where
    np: "comprehension (\<lambda>i.
              ebind (index_r hypotheses i) (\<lambda>h.
              ebind (marginal_likelihood h signal context) (\<lambda>l. Inr (posterior ! i + l))))
            [0..<length posterior] = Inr np"
    and v: "v = normalize_logprobs np"
    by (auto simp: update_posterior_comprehension ebind_def split: sum.splits)
  have "length np = length posterior"
    using comprehension_length [OF np] by simp
  then have "np \<noteq> []"
    using assms(2) by auto
  then show ?thesis
    by (simp add: v normalize_logprobs_sums_to_one logsumexp_normalize_logprobs)
qed

theorem update_posterior_normalized_witness:
  "\<exists>v. update_posterior
          [([''100'', ''010'', ''001''], 1, 0), ([''111'', ''010'', ''011''], 1, 1)]
          [ln (1/2), ln (1/2)] (CHR ''a'') [1/10, 2/10, 9/10] = Inr v
       \<and> sum_list (map exp v) = 1 \<and> logsumexp v = 0"
proof -
  have "\<exists>v. update_posterior
          [([''100'', ''010'', ''001''], 1, 0), ([''111'', ''010'', ''011''], 1, 1)]
          [ln (1/2), ln (1/2)] (signals ! 0) [1/10, 2/10, 9/10] = Inr v"
    by (rule update_posterior_returns) (simp_all add: wf_language_def)
  then obtain v where v: "update_posterior
          [([''100'', ''010'', ''001''], 1, 0), ([''111'', ''010'', ''011''], 1, 1)]
          [ln (1/2), ln (1/2)] (CHR ''a'') [1/10, 2/10, 9/10] = Inr v"
    by (auto simp: signals_def)
  show ?thesis
    using update_posterior_normalized [OF v] v by simp
qed

lemma logsumexp_shift:
  "vs \<noteq> [] \<Longrightarrow> logsumexp (map (\<lambda>v. v - c) vs) = logsumexp vs - c"
  using sum_list_exp_pos [of vs] sum_list_exp_shift [of c vs]
  by (simp add: logsumexp_def ln_div del: map_map)

lemma normalize_logprobs_shift:
  "normalize_logprobs (map (\<lambda>v. v - c) vs) = normalize_logprobs vs"
proof (cases "vs = []")
  case True
  then show ?thesis by (simp add: normalize_logprobs_def)
next
  case False
  then show ?thesis
    by (simp add: normalize_logprobs_def logsumexp_shift del: map_map) simp
qed

lemma comprehension_bind_map:
  "comprehension (\<lambda>x. ebind (f x) (\<lambda>v. Inr (g x v))) xs =
     ebind (comprehension f xs) (\<lambda>vs. Inr (map (\<lambda>(x, v). g x v) (zip xs vs)))"
  by (induction xs) (auto simp: ebind_def split: sum.splits)

lemma zip_upt_map:
  "length vs = n \<Longrightarrow> map (\<lambda>(i, v). g i v) (zip [0..<n] vs) = map (\<lambda>i. g i (vs ! i)) [0..<n]"
  by (rule nth_equalityI) simp_all

lemma update_posterior_likelihoods:
  "update_posterior hypotheses posterior signal context =
     ebind (comprehension (\<lambda>i.
              ebind (index_r hypotheses i) (\<lambda>h. marginal_likelihood h signal context))
            [0..<length posterior])
       (\<lambda>L. Inr (normalize_logprobs (map (\<lambda>i. posterior ! i + L ! i) [0..<length posterior])))"
proof -
  have "comprehension (\<lambda>i.
              ebind (index_r hypotheses i) (\<lambda>h.
              ebind (marginal_likelihood h signal context) (\<lambda>l. Inr (posterior ! i + l))))
            [0..<length posterior]
     = comprehension (\<lambda>i.
              ebind (ebind (index_r hypotheses i) (\<lambda>h. marginal_likelihood h signal context))
                (\<lambda>l. Inr (posterior ! i + l)))
            [0..<length posterior]"
    by (intro comprehension_cong) (simp add: ebind_def split: sum.splits)
  then show ?thesis
    unfolding update_posterior_comprehension comprehension_bind_map
    by (cases "comprehension (\<lambda>i.
              ebind (index_r hypotheses i) (\<lambda>h. marginal_likelihood h signal context))
            [0..<length posterior]")
       (simp_all add: zip_upt_map comprehension_length)
qed

text \<open>
  C7. Two updates with the same signal and context give the closed form
  \<open>normalize_logprobs (P + 2 * L)\<close>, where \<open>L[i]\<close> is the marginal likelihood of
  the observation under hypothesis \<open>i\<close>; the two sides also raise together.
\<close>

theorem update_posterior_twice:
  "ebind (update_posterior hypotheses posterior signal context)
     (\<lambda>posterior'. update_posterior hypotheses posterior' signal context)
   = doubled_evidence hypotheses posterior signal context"
proof (cases "comprehension (\<lambda>i.
              ebind (index_r hypotheses i) (\<lambda>h. marginal_likelihood h signal context))
            [0..<length posterior]")
  case (Inl e)
  then show ?thesis
    by (simp add: update_posterior_likelihoods doubled_evidence_def)
next
  case (Inr L)
  define n where "n = length posterior"
  define once where "once = map (\<lambda>i. posterior ! i + L ! i) [0..<n]"
  define c where "c = logsumexp once"
  have first: "update_posterior hypotheses posterior signal context
                 = Inr (normalize_logprobs once)"
    using Inr by (simp add: update_posterior_likelihoods once_def n_def)
  have len: "length (normalize_logprobs once) = n"
    by (simp add: normalize_logprobs_def once_def)
  have second: "update_posterior hypotheses (normalize_logprobs once) signal context
      = Inr (normalize_logprobs (map (\<lambda>i. normalize_logprobs once ! i + L ! i) [0..<n]))"
    using Inr by (simp add: update_posterior_likelihoods [of _ "normalize_logprobs once"] len n_def)
  have "map (\<lambda>i. normalize_logprobs once ! i + L ! i) [0..<n]
      = map (\<lambda>v. v - c) (map (\<lambda>i. posterior ! i + 2 * L ! i) [0..<n])"
    by (simp add: normalize_logprobs_def once_def c_def)
  then have "normalize_logprobs (map (\<lambda>i. normalize_logprobs once ! i + L ! i) [0..<n])
      = normalize_logprobs (map (\<lambda>i. posterior ! i + 2 * L ! i) [0..<n])"
    by (simp only: normalize_logprobs_shift)
  then show ?thesis
    using Inr by (simp add: first second doubled_evidence_def n_def)
qed


subsection \<open>The posterior array in the store\<close>

lemma posterior_loop_frame:
  assumes "posterior_loop hypotheses p a signal ctx idx h = (r, h')"
  shows "length h' = length h \<and> (\<forall>b. b \<noteq> a \<longrightarrow> h' ! b = h ! b)"
  using assms
proof (induction idx arbitrary: h)
  case Nil
  then show ?case by simp
next
  case (Cons i idx)
  show ?case
  proof (cases "ebind (index_r hypotheses i) (\<lambda>hyp. marginal_likelihood hyp signal ctx)")
    case (Inl e)
    then show ?thesis using Cons.prems by simp
  next
    case (Inr l)
    then have "posterior_loop hypotheses p a signal ctx idx
                 (h[a := (h ! a)[i := h ! p ! i + l]]) = (r, h')"
      using Cons.prems by simp
    from Cons.IH [OF this] show ?thesis by simp
  qed
qed

lemma posterior_loop_pure:
  assumes "p \<noteq> a" "a < length h"
  shows "case fill_loop (\<lambda>i. ebind (index_r hypotheses i) (\<lambda>hyp.
                  ebind (marginal_likelihood hyp signal ctx) (\<lambda>l. Inr (h ! p ! i + l))))
                idx (h ! a) of
           Inl e \<Rightarrow> fst (posterior_loop hypotheses p a signal ctx idx h) = Inl e
               \<or> (\<exists>i\<in>set idx. \<not> i < length (h ! a))
         | Inr arr \<Rightarrow> posterior_loop hypotheses p a signal ctx idx h = (Inr (), h[a := arr])"
  using assms
proof (induction idx arbitrary: h)
  case Nil
  then show ?case by simp
next
  case (Cons i idx)
  show ?case
  proof (cases "ebind (index_r hypotheses i) (\<lambda>hyp. marginal_likelihood hyp signal ctx)")
    case (Inl e)
    then show ?thesis
      by (auto simp: ebind_def split: sum.splits)
  next
    case (Inr l)
    let ?h = "h[a := (h ! a)[i := h ! p ! i + l]]"
    have f: "ebind (index_r hypotheses i) (\<lambda>hyp.
                  ebind (marginal_likelihood hyp signal ctx) (\<lambda>l. Inr (h ! p ! i + l)))
             = Inr (h ! p ! i + l)"
      using Inr by (auto simp: ebind_def split: sum.splits)
    have hp: "?h ! p = h ! p" and ha: "?h ! a = (h ! a)[i := h ! p ! i + l]"
      and len: "a < length ?h" and la: "length (?h ! a) = length (h ! a)"
      using Cons.prems by simp_all
    have upd: "?h[a := arr] = h[a := arr]" for arr
      by simp
    show ?thesis
    proof (cases "i < length (h ! a)")
      case False
      then show ?thesis by (simp add: f)
    next
      case True
      show ?thesis
        using Cons.IH [OF Cons.prems(1) len] True Inr
        by (simp add: f hp ha upd la split: sum.splits)
    qed
  qed
qed

text \<open>
  C10. \<open>update_posterior\<close> leaves the caller's posterior array as it was: every array
  that was in the store before the call is unchanged after it, whether the call returns
  or raises, and the result is a new array, at an address the store did not have, holding
  the vector that the pure \<open>update_posterior\<close> computes.
\<close>

theorem update_posterior_frame:
  assumes "posterior < length h"
    and "update_posterior_heap hypotheses posterior signal ctx h = (r, h')"
  shows "h' ! posterior = h ! posterior
       \<and> take (length h) h' = h
       \<and> (\<forall>e. r = Inl e \<longrightarrow> update_posterior hypotheses (h ! posterior) signal ctx = Inl e)
       \<and> (\<forall>a. r = Inr a \<longrightarrow> a \<noteq> posterior \<and> length h \<le> a \<and> a < length h'
              \<and> update_posterior hypotheses (h ! posterior) signal ctx = Inr (h' ! a))"
proof -
  define n where "n = length (h ! posterior)"
  define a where "a = length h"
  define h1 where "h1 = h @ [replicate n 0]"
  obtain r0 h2 where loop: "posterior_loop hypotheses posterior a signal ctx [0..<n] h1 = (r0, h2)"
    by (cases "posterior_loop hypotheses posterior a signal ctx [0..<n] h1") auto
  have pa: "posterior \<noteq> a" and a1: "a < length h1"
    using assms(1) by (simp_all add: a_def h1_def)
  have h1p: "h1 ! posterior = h ! posterior" and h1a: "h1 ! a = replicate n 0"
    using assms(1) by (simp_all add: h1_def a_def nth_append)
  from posterior_loop_frame [OF loop]
  have len2: "length h2 = Suc (length h)" and same: "\<And>b. b \<noteq> a \<Longrightarrow> h2 ! b = h1 ! b"
    by (simp_all add: h1_def)
  have old: "h2 ! b = h ! b" if "b < length h" for b
    using that same [of b] by (simp add: a_def h1_def nth_append)
  have prefix2: "take (length h) h2 = h"
    by (rule nth_equalityI) (simp_all add: len2 old)
  have res: "(r, h') = (case r0 of Inl e \<Rightarrow> (Inl e, h2)
                        | Inr u \<Rightarrow> (Inr (length h2), h2 @ [normalize_logprobs (h2 ! a)]))"
    using assms(2) loop
    by (simp add: update_posterior_heap_def Let_def n_def [symmetric] a_def [symmetric]
        h1_def [symmetric] split: sum.splits)
  have pure: "update_posterior hypotheses (h ! posterior) signal ctx =
      ebind (fill_loop (\<lambda>i. ebind (index_r hypotheses i) (\<lambda>hyp.
                  ebind (marginal_likelihood hyp signal ctx) (\<lambda>l. Inr (h1 ! posterior ! i + l))))
                [0..<n] (h1 ! a))
        (\<lambda>new_posterior. Inr (normalize_logprobs new_posterior))"
    by (simp add: update_posterior_def h1p h1a n_def)
  note link = posterior_loop_pure [OF pa a1, of hypotheses signal ctx "[0..<n]"]
  show ?thesis
  proof (cases "fill_loop (\<lambda>i. ebind (index_r hypotheses i) (\<lambda>hyp.
                  ebind (marginal_likelihood hyp signal ctx) (\<lambda>l. Inr (h1 ! posterior ! i + l))))
                [0..<n] (h1 ! a)")
    case (Inl e)
    then have "r0 = Inl e"
      using link loop by (simp add: h1a)
    then have "r = Inl e" "h' = h2"
      using res by simp_all
    then show ?thesis
      using assms(1) Inl by (simp add: pure old prefix2)
  next
    case (Inr arr)
    then have "r0 = Inr ()" "h2 = h1[a := arr]"
      using link loop by simp_all
    then have r: "r = Inr (length h2)" and h': "h' = h2 @ [normalize_logprobs arr]"
      using res a1 by simp_all
    show ?thesis
      using assms(1) Inr
      by (simp add: r h' pure nth_append len2 old prefix2)
  qed
qed

theorem update_posterior_frame_witness:
  "\<exists>a h'. update_posterior_heap
            [([''100'', ''010'', ''001''], 1, 0), ([''111'', ''010'', ''011''], 1, 1)]
            0 (CHR ''a'') [1/10, 2/10, 9/10] [[ln (1/2), ln (1/2)]] = (Inr a, h')
        \<and> h' ! 0 = [ln (1/2), ln (1/2)] \<and> a \<noteq> 0"
proof -
  let ?hs = "[([''100'', ''010'', ''001''], 1, 0), ([''111'', ''010'', ''011''], 1, 1)]"
  let ?h = "[[ln (1/2), ln (1/2)]] :: heap"
  let ?ctx = "[1/10, 2/10, 9/10] :: real list"
  obtain r h' where res: "update_posterior_heap ?hs 0 (CHR ''a'') ?ctx ?h = (r, h')"
    by (cases "update_posterior_heap ?hs 0 (CHR ''a'') ?ctx ?h") auto
  have "\<exists>v. update_posterior ?hs [ln (1/2), ln (1/2)] (signals ! 0) ?ctx = Inr v"
    by (rule update_posterior_returns) (simp_all add: wf_language_def)
  then obtain v where v: "update_posterior ?hs (?h ! 0) (CHR ''a'') ?ctx = Inr v"
    by (auto simp: signals_def)
  have fr: "h' ! 0 = ?h ! 0
       \<and> take (length ?h) h' = ?h
       \<and> (\<forall>e. r = Inl e \<longrightarrow> update_posterior ?hs (?h ! 0) (CHR ''a'') ?ctx = Inl e)
       \<and> (\<forall>a. r = Inr a \<longrightarrow> a \<noteq> 0 \<and> length ?h \<le> a \<and> a < length h'
              \<and> update_posterior ?hs (?h ! 0) (CHR ''a'') ?ctx = Inr (h' ! a))"
    by (rule update_posterior_frame [OF _ res]) simp
  show ?thesis
  proof (cases r)
    case (Inl e)
    then show ?thesis using fr v by simp
  next
    case (Inr a)
    then show ?thesis using fr res by simp
  qed
qed


subsection \<open>The enumeration of the lexicons\<close>

lemma languages_loop_acc:
  "languages_loop idx acc = acc @ languages_loop idx []"
proof (induction idx arbitrary: acc)
  case Nil
  then show ?case by simp
next
  case (Cons i idx)
  show ?case
    using Cons.IH [of "acc @ [x]" for x] Cons.IH [of "[x]" for x] Cons.IH [of acc]
    by (simp add: Let_def)
qed

lemma languages_loop_concat:
  "languages_loop idx [] = concat (map (\<lambda>i. languages_loop [i] []) idx)"
proof (induction idx)
  case Nil
  then show ?case by simp
next
  case (Cons i idx)
  have "languages_loop (i # idx) [] = languages_loop [i] [] @ languages_loop idx []"
    using languages_loop_acc [of idx "[x]" for x] by (simp add: Let_def)
  then show ?case using Cons.IH by simp
qed

lemma bin_value_simps [simp]:
  "bin_value [] = 0"
  "bin_value (s @ [c]) = 2 * bin_value s + (if c = CHR ''1'' then 1 else 0)"
  by (simp_all add: bin_value_def)

lemma bin_value_append:
  "bin_value (s @ t) = bin_value s * 2 ^ length t + bin_value t"
  by (induction t rule: rev_induct) (simp_all add: algebra_simps flip: append_assoc)

lemma length_bin_digits [simp]: "length (bin_digits n i) = n"
  by (induction n arbitrary: i) simp_all

lemma binary_bin_digits: "binary (bin_digits n i)"
  by (induction n arbitrary: i) (auto simp: binary_def)

lemma bin_value_bin_digits: "bin_value (bin_digits n i) = i mod 2 ^ n"
proof (induction n arbitrary: i)
  case 0
  then show ?case by simp
next
  case (Suc n)
  have "i mod (2 * 2 ^ n) = 2 * (i div 2 mod 2 ^ n) + i mod 2"
    by (rule mod_mult2_eq)
  then show ?case
    using Suc.IH [of "i div 2"] by auto
qed

lemma bin_digits_bin_value:
  "binary s \<Longrightarrow> bin_digits (length s) (bin_value s) = s"
proof (induction s rule: rev_induct)
  case Nil
  then show ?case by simp
next
  case (snoc c s)
  then have "binary s" and c: "c = CHR ''0'' \<or> c = CHR ''1''"
    by (auto simp: binary_def)
  with snoc.IH show ?case by auto
qed

lemma bin_value_less: "bin_value s < 2 ^ length s"
proof (induction s rule: rev_induct)
  case Nil
  then show ?case by simp
next
  case (snoc c s)
  then show ?case by auto
qed

lemma bin_value_pos: "CHR ''1'' \<in> set s \<Longrightarrow> 0 < bin_value s"
  by (induction s rule: rev_induct) auto

lemma bin_digits_zero: "bin_digits n 0 = replicate n (CHR ''0'')"
  by (induction n) (simp_all add: replicate_append_same)

lemma format_b_nonempty: "format_b i \<noteq> []"
  by (subst format_b.simps) simp

lemma format_b_padded:
  "0 < n \<Longrightarrow> i < 2 ^ n \<Longrightarrow>
   length (format_b i) \<le> n
   \<and> replicate (n - length (format_b i)) (CHR ''0'') @ format_b i = bin_digits n i"
proof (induction n arbitrary: i)
  case 0
  then show ?case by simp
next
  case (Suc n)
  show ?case
  proof (cases "i < 2")
    case True
    then have f: "format_b i = [if i = 0 then CHR ''0'' else CHR ''1'']"
      by (subst format_b.simps) simp
    from True have "i div 2 = 0" "i mod 2 = i" by simp_all
    then show ?thesis
      by (simp add: f bin_digits_zero)
  next
    case False
    then have f: "format_b i = format_b (i div 2) @ [if i mod 2 = 0 then CHR ''0'' else CHR ''1'']"
      by (subst format_b.simps) simp
    from False Suc.prems have n: "0 < n"
      by (cases n) auto
    have "i div 2 < 2 ^ n"
      using Suc.prems by auto
    from Suc.IH [OF n this] show ?thesis
      by (simp add: f Suc_diff_le)
  qed
qed

lemma format_b_long: "2 ^ n \<le> i \<Longrightarrow> n < length (format_b i)"
proof (induction n arbitrary: i)
  case 0
  then show ?case using format_b_nonempty [of i] by (cases "format_b i") auto
next
  case (Suc n)
  have "(2::nat) \<le> 2 ^ Suc n"
    by simp
  with Suc.prems have "\<not> i < 2"
    by linarith
  then have f: "format_b i = format_b (i div 2) @ [if i mod 2 = 0 then CHR ''0'' else CHR ''1'']"
    by (subst format_b.simps) simp
  have "2 ^ n \<le> i div 2"
    using Suc.prems by auto
  from Suc.IH [OF this] show ?case
    by (simp add: f)
qed

lemma pad_loop_replicate: "pad_loop s = replicate (9 - length s) (CHR ''0'') @ s"
proof (induction s rule: pad_loop.induct)
  case (1 s)
  show ?case
  proof (cases "length s < 9")
    case True
    then have "pad_loop s = replicate (9 - Suc (length s)) (CHR ''0'') @ CHR ''0'' # s"
      using 1 by (subst pad_loop.simps) simp
    also have "\<dots> = replicate (Suc (9 - Suc (length s))) (CHR ''0'') @ s"
      by (simp add: replicate_app_Cons_same)
    also have "Suc (9 - Suc (length s)) = 9 - length s"
      using True by simp
    finally show ?thesis .
  next
    case False
    then show ?thesis
      by (subst pad_loop.simps) simp
  qed
qed

lemma step_small:
  assumes "i < 64"
  shows "languages_loop [i] [] = []"
proof -
  have "i < 2 ^ 6" using assms by simp
  then have "length (format_b i) \<le> 6"
    using format_b_padded [of 6 i] by simp
  then show ?thesis by (simp add: Let_def)
qed

lemma format_b_512: "format_b 512 = ''1000000000''"
  by (simp add: format_b.simps)

lemma step_512: "languages_loop [512] [] = []"
  by (simp add: format_b_512 pad_loop_replicate Let_def)

lemma step_mid:
  assumes "64 \<le> i" "i < 512"
  shows "languages_loop [i] [] =
           (let string = bin_digits 9 i in
            if drop 6 string \<noteq> ''000'' \<and> drop 3 (take 6 string) \<noteq> ''000''
            then [matrix_of string] else [])"
proof -
  have "2 ^ 6 \<le> i" using assms(1) by simp
  then have long: "7 \<le> length (format_b i)"
    using format_b_long [of 6 i] by simp
  have "i < 2 ^ 9" using assms(2) by simp
  then have "length (format_b i) \<le> 9"
    and "replicate (9 - length (format_b i)) (CHR ''0'') @ format_b i = bin_digits 9 i"
    using format_b_padded [of 9 i] by simp_all
  then have pad: "pad_loop (format_b i) = bin_digits 9 i"
    by (simp add: pad_loop_replicate)
  show ?thesis
    using long by (simp add: Let_def pad matrix_of_def)
qed

lemma length_9_cases:
  "length s = 9 \<Longrightarrow> \<exists>a b c d e f g h k. s = [a, b, c, d, e, f, g, h, k]"
  by (auto simp: length_Suc_conv eval_nat_numeral)

lemma matrix_of_rows:
  "length s = 9 \<Longrightarrow> matrix_of s = [take 3 s, drop 3 (take 6 s), drop 6 s]"
  by (auto dest!: length_9_cases simp: matrix_of_def)

lemma binary_zero:
  "binary s \<Longrightarrow> CHR ''1'' \<notin> set s \<Longrightarrow> s = replicate (length s) (CHR ''0'')"
  by (induction s) (auto simp: binary_def)

lemma binary_3_has_one:
  "binary s \<Longrightarrow> length s = 3 \<Longrightarrow> CHR ''1'' \<in> set s \<longleftrightarrow> s \<noteq> ''000''"
proof
  assume "binary s" "length s = 3" "CHR ''1'' \<in> set s"
  then show "s \<noteq> ''000''" by auto
next
  assume b: "binary s" and l: "length s = 3" and n: "s \<noteq> ''000''"
  show "CHR ''1'' \<in> set s"
  proof (rule ccontr)
    assume "CHR ''1'' \<notin> set s"
    from binary_zero [OF b this] l have "s = replicate 3 (CHR ''0'')" by simp
    then show False using n by (simp add: numeral_3_eq_3)
  qed
qed

lemma binary_parts:
  "binary s \<Longrightarrow> binary (take n s)" "binary s \<Longrightarrow> binary (drop n s)"
  by (auto simp: binary_def dest: in_set_takeD in_set_dropD)

lemma accepted_valid:
  assumes "64 \<le> i" "i < 512"
    and "drop 6 (bin_digits 9 i) \<noteq> ''000''"
    and "drop 3 (take 6 (bin_digits 9 i)) \<noteq> ''000''"
  shows "valid_lexicon (matrix_of (bin_digits 9 i))"
proof -
  let ?s = "bin_digits 9 i"
  have b: "binary ?s" by (rule binary_bin_digits)
  have top: "take 3 ?s \<noteq> ''000''"
  proof
    assume z: "take 3 ?s = ''000''"
    have "?s = take 3 ?s @ drop 3 ?s" by simp
    then have "bin_value ?s = bin_value (take 3 ?s) * 2 ^ length (drop 3 ?s) + bin_value (drop 3 ?s)"
      by (metis bin_value_append)
    also have "\<dots> = bin_value (drop 3 ?s)"
      by (simp add: z bin_value_def)
    also have "\<dots> < 2 ^ length (drop 3 ?s)"
      by (rule bin_value_less)
    finally have "bin_value ?s < 64" by simp
    moreover have "bin_value ?s = i"
      using assms(2) by (simp add: bin_value_bin_digits)
    ultimately show False using assms(1) by simp
  qed
  have "CHR ''1'' \<in> set (take 3 ?s)" "CHR ''1'' \<in> set (drop 3 (take 6 ?s))"
       "CHR ''1'' \<in> set (drop 6 ?s)"
    using top assms(3,4) b
    by (simp_all add: binary_3_has_one binary_parts)
  then show ?thesis
    using b by (simp add: valid_lexicon_def matrix_of_rows binary_parts)
qed

lemma valid_accepted:
  assumes "valid_lexicon m"
  shows "\<exists>i. 64 \<le> i \<and> i < 512 \<and> drop 6 (bin_digits 9 i) \<noteq> ''000''
            \<and> drop 3 (take 6 (bin_digits 9 i)) \<noteq> ''000'' \<and> m = matrix_of (bin_digits 9 i)"
proof -
  from assms obtain r0 r1 r2 where m: "m = [r0, r1, r2]"
    by (auto simp: valid_lexicon_def length_Suc_conv eval_nat_numeral)
  have rows: "length r0 = 3" "length r1 = 3" "length r2 = 3"
    "binary r0" "binary r1" "binary r2"
    "CHR ''1'' \<in> set r0" "CHR ''1'' \<in> set r1" "CHR ''1'' \<in> set r2"
    using assms by (simp_all add: valid_lexicon_def m)
  define s where "s = r0 @ r1 @ r2"
  define i where "i = bin_value s"
  have len: "length s = 9" and bin: "binary s"
    using rows by (auto simp: s_def binary_def)
  have digits: "bin_digits 9 i = s"
    using bin_digits_bin_value [OF bin] by (simp add: len i_def)
  have "i < 2 ^ length s"
    unfolding i_def by (rule bin_value_less)
  then have hi: "i < 512" by (simp add: len)
  have "i = bin_value r0 * 2 ^ length (r1 @ r2) + bin_value (r1 @ r2)"
    unfolding i_def s_def by (rule bin_value_append)
  moreover have "0 < bin_value r0"
    using rows by (simp add: bin_value_pos)
  ultimately have lo: "64 \<le> i"
    using rows by simp
  have parts: "take 3 s = r0" "drop 3 (take 6 s) = r1" "drop 6 s = r2"
    using rows by (simp_all add: s_def)
  have "r1 \<noteq> ''000''" "r2 \<noteq> ''000''"
    using rows by auto
  then show ?thesis
    using lo hi len by (intro exI [of _ i]) (simp add: digits parts matrix_of_rows m)
qed

lemma step_accepted:
  assumes "i \<le> 512"
  shows "languages_loop [i] [] = (if accepted i then [matrix_of (bin_digits 9 i)] else [])"
proof -
  consider "i < 64" | "64 \<le> i" "i < 512" | "i = 512"
    using assms by linarith
  then show ?thesis
  proof cases
    case 1
    have "languages_loop [i] [] = []"
      by (rule step_small [OF 1])
    moreover have "\<not> accepted i"
      using 1 by (simp add: accepted_def)
    ultimately show ?thesis by (simp only: if_False)
  next
    case 2
    have "languages_loop [i] [] =
           (let string = bin_digits 9 i in
            if drop 6 string \<noteq> ''000'' \<and> drop 3 (take 6 string) \<noteq> ''000''
            then [matrix_of string] else [])"
      by (rule step_mid [OF 2])
    moreover have "accepted i \<longleftrightarrow>
        drop 6 (bin_digits 9 i) \<noteq> ''000'' \<and> drop 3 (take 6 (bin_digits 9 i)) \<noteq> ''000''"
      using 2 by (simp add: accepted_def)
    ultimately show ?thesis by (simp only: Let_def)
  next
    case 3
    have "languages_loop [i] [] = []"
      unfolding 3 by (rule step_512)
    moreover have "\<not> accepted i"
      using 3 by (simp add: accepted_def)
    ultimately show ?thesis by (simp only: if_False)
  qed
qed

lemma in_range:
  "i \<in> set (rev [1..<Suc (2 ^ 9)]) \<longleftrightarrow> 1 \<le> i \<and> i \<le> 512"
proof -
  have "i \<in> set (rev [1..<Suc (2 ^ 9)]) \<longleftrightarrow> 1 \<le> i \<and> i < Suc (2 ^ 9)"
    by (simp only: set_rev set_upt atLeastLessThan_iff)
  also have "\<dots> \<longleftrightarrow> 1 \<le> i \<and> i \<le> 512"
    by auto
  finally show ?thesis .
qed

lemma distinct_range: "distinct (rev [1..<Suc (2 ^ 9)])"
  by (simp only: distinct_rev distinct_upt)

lemma concat_map_if:
  "concat (map (\<lambda>x. if P x then [f x] else []) xs) = map f (filter P xs)"
  by (induction xs) simp_all

lemma languages_filter:
  "languages = map (\<lambda>i. matrix_of (bin_digits 9 i)) (filter accepted (rev [1..<Suc (2 ^ 9)]))"
proof -
  have "map (\<lambda>i. languages_loop [i] []) (rev [1..<Suc (2 ^ 9)])
      = map (\<lambda>i. if accepted i then [matrix_of (bin_digits 9 i)] else []) (rev [1..<Suc (2 ^ 9)])"
  proof (rule map_cong [OF refl])
    fix i assume "i \<in> set (rev [1..<Suc (2 ^ 9)])"
    then have "i \<le> 512" by (simp only: in_range)
    then show "languages_loop [i] [] = (if accepted i then [matrix_of (bin_digits 9 i)] else [])"
      by (rule step_accepted)
  qed
  then have eq: "concat (map (\<lambda>i. languages_loop [i] []) (rev [1..<Suc (2 ^ 9)]))
      = map (\<lambda>i. matrix_of (bin_digits 9 i)) (filter accepted (rev [1..<Suc (2 ^ 9)]))"
    by (simp only: concat_map_if)
  have "languages = concat (map (\<lambda>i. languages_loop [i] []) (rev [1..<Suc (2 ^ 9)]))"
    unfolding languages_def by (rule languages_loop_concat)
  also note eq
  finally show ?thesis .
qed

lemma set_languages: "set languages = {m. valid_lexicon m}"
proof (intro set_eqI iffI)
  fix m assume "m \<in> set languages"
  then obtain i where "accepted i" "m = matrix_of (bin_digits 9 i)"
    unfolding languages_filter set_map set_filter by blast
  then show "m \<in> {m. valid_lexicon m}"
    using accepted_valid [of i] by (simp add: accepted_def)
next
  fix m assume "m \<in> {m. valid_lexicon m}"
  then obtain i where i: "accepted i" "m = matrix_of (bin_digits 9 i)"
    using valid_accepted [of m] by (auto simp: accepted_def)
  then have "1 \<le> i \<and> i \<le> 512"
    by (simp add: accepted_def)
  then have "i \<in> set (rev [1..<Suc (2 ^ 9)])"
    by (simp only: in_range)
  then show "m \<in> set languages"
    using i unfolding languages_filter set_map set_filter by blast
qed

lemma matrix_of_inj:
  assumes "length s = 9" "length t = 9" "matrix_of s = matrix_of t"
  shows "s = t"
proof -
  have "concat (matrix_of s) = s" "concat (matrix_of t) = t"
    using assms(1,2) by (auto dest!: length_9_cases simp: matrix_of_def)
  then show ?thesis using assms(3) by metis
qed

lemma distinct_languages: "distinct languages"
proof -
  have "inj_on (\<lambda>i. matrix_of (bin_digits 9 i)) (set (filter accepted (rev [1..<Suc (2 ^ 9)])))"
  proof (rule inj_onI)
    fix i j
    assume "i \<in> set (filter accepted (rev [1..<Suc (2 ^ 9)]))"
      and "j \<in> set (filter accepted (rev [1..<Suc (2 ^ 9)]))"
      and eq: "matrix_of (bin_digits 9 i) = matrix_of (bin_digits 9 j)"
    then have "accepted i" "accepted j"
      unfolding set_filter by blast+
    then have lt: "i < 2 ^ 9" "j < 2 ^ 9"
      by (simp_all add: accepted_def)
    have "bin_digits 9 i = bin_digits 9 j"
      using eq by (intro matrix_of_inj) simp_all
    then have "bin_value (bin_digits 9 i) = bin_value (bin_digits 9 j)"
      by simp
    then show "i = j"
      using lt by (simp only: bin_value_bin_digits mod_less)
  qed
  moreover have "distinct (filter accepted (rev [1..<Suc (2 ^ 9)]))"
    by (intro distinct_filter distinct_range)
  ultimately show ?thesis
    unfolding languages_filter by (simp only: distinct_map) 
qed

lemma set_valid_rows:
  "set valid_rows = {r. length r = 3 \<and> binary r \<and> CHR ''1'' \<in> set r}"
proof (intro set_eqI iffI)
  fix r assume "r \<in> set valid_rows"
  then show "r \<in> {r. length r = 3 \<and> binary r \<and> CHR ''1'' \<in> set r}"
    by (auto simp: valid_rows_def binary_def)
next
  fix r assume "r \<in> {r. length r = 3 \<and> binary r \<and> CHR ''1'' \<in> set r}"
  then obtain a b c where r: "r = [a, b, c]" and
    abc: "a = CHR ''0'' \<or> a = CHR ''1''" "b = CHR ''0'' \<or> b = CHR ''1''"
         "c = CHR ''0'' \<or> c = CHR ''1''" and one: "CHR ''1'' \<in> set r"
    by (auto simp: binary_def length_Suc_conv eval_nat_numeral)
  then show "r \<in> set valid_rows"
    by (auto simp: valid_rows_def)
qed

lemma set_valid_lexicons: "set valid_lexicons = {m. valid_lexicon m}"
proof (intro set_eqI iffI)
  fix m assume "m \<in> set valid_lexicons"
  then obtain r0 r1 r2 where "m = [r0, r1, r2]"
    "r0 \<in> set valid_rows" "r1 \<in> set valid_rows" "r2 \<in> set valid_rows"
    by (auto simp: valid_lexicons_def)
  then show "m \<in> {m. valid_lexicon m}"
    unfolding set_valid_rows by (simp add: valid_lexicon_def)
next
  fix m assume "m \<in> {m. valid_lexicon m}"
  then obtain r0 r1 r2 where m: "m = [r0, r1, r2]" and
    "r0 \<in> set valid_rows" "r1 \<in> set valid_rows" "r2 \<in> set valid_rows"
    unfolding set_valid_rows
    by (auto simp: valid_lexicon_def length_Suc_conv eval_nat_numeral)
  then have "(r0, r1, r2) \<in> set (List.product valid_rows (List.product valid_rows valid_rows))"
    by simp
  then show "m \<in> set valid_lexicons"
    unfolding valid_lexicons_def m by force
qed

lemma distinct_valid_lexicons: "distinct valid_lexicons"
proof -
  have "distinct valid_rows"
    by (simp add: valid_rows_def)
  then have "distinct (List.product valid_rows (List.product valid_rows valid_rows))"
    by (intro distinct_product)
  moreover have "inj_on (\<lambda>(r0, r1, r2). [r0, r1, r2]) A" for A :: "(string \<times> string \<times> string) set"
    by (auto simp: inj_on_def)
  ultimately show ?thesis
    by (simp add: valid_lexicons_def distinct_map)
qed

lemma length_valid_lexicons: "length valid_lexicons = 343"
  by (simp add: valid_lexicons_def valid_rows_def)

text \<open>
  C9. The enumeration produces exactly the valid 3 x 3 lexicons: every generated matrix
  has three rows of three binary entries with a \<open>1\<close> in each row, every such matrix
  is generated, no matrix is generated twice, and there are 343 of them.
\<close>

theorem languages_enumeration:
  "set languages = {m. valid_lexicon m} \<and> distinct languages \<and> length languages = 343"
proof (intro conjI)
  show "set languages = {m. valid_lexicon m}"
    by (rule set_languages)
  show "distinct languages"
    by (rule distinct_languages)
  have "length languages = card (set languages)"
    using distinct_languages by (simp only: distinct_card)
  also have "\<dots> = card (set valid_lexicons)"
    by (simp only: set_languages set_valid_lexicons)
  also have "\<dots> = length valid_lexicons"
    using distinct_valid_lexicons by (simp only: distinct_card)
  also have "\<dots> = 343"
    by (rule length_valid_lexicons)
  finally show "length languages = 343" .
qed

theorem languages_enumeration_witness:
  "[''100'', ''010'', ''001''] \<in> set languages \<and> [''100'', ''000'', ''001''] \<notin> set languages"
proof -
  have "set languages = {m. valid_lexicon m}"
    using languages_enumeration by (rule conjunct1)
  moreover have "valid_lexicon [''100'', ''010'', ''001'']"
    by (simp add: valid_lexicon_def binary_def)
  moreover have "\<not> valid_lexicon [''100'', ''000'', ''001'']"
    by (simp add: valid_lexicon_def binary_def)
  ultimately show ?thesis by blast
qed


subsection \<open>The noise loop of the pragmatic listener\<close>

lemma noisy_loop_3:
  "noisy_loop [0..<3] [p0, p1, p2] =
     (let n0 = logsumexp [p0 + ln (1 - noise), ln noise + logsumexp [p1, p2] - ln 2];
          n1 = logsumexp [p1 + ln (1 - noise), ln noise + logsumexp [n0, p2] - ln 2];
          n2 = logsumexp [p2 + ln (1 - noise), ln noise + logsumexp [n0, n1] - ln 2]
      in [n0, n1, n2])"
  by (simp add: upt_3 Let_def signals_def)

lemma spec_noisy_probs_3:
  "spec_noisy_probs [p0, p1, p2] =
     [logsumexp [ln (1 - noise) + p0, ln noise + logsumexp [p1, p2] - ln 2],
      logsumexp [ln (1 - noise) + p1, ln noise + logsumexp [p0, p2] - ln 2],
      logsumexp [ln (1 - noise) + p2, ln noise + logsumexp [p0, p1] - ln 2]]"
  by (simp add: spec_noisy_probs_def upt_3 num_signals_def)

lemma exp_logsumexp2: "exp (logsumexp [x, y]) = exp x + exp y"
  by (simp add: exp_logsumexp)

lemma noisy_second_differs:
  assumes "exp p1 + exp p2 \<noteq> 2 * exp p0"
  shows "noisy_loop [0..<3] [p0, p1, p2] ! 1 \<noteq> spec_noisy_probs [p0, p1, p2] ! 1"
proof
  assume eq: "noisy_loop [0..<3] [p0, p1, p2] ! 1 = spec_noisy_probs [p0, p1, p2] ! 1"
  define n0 where "n0 = logsumexp [p0 + ln (1 - noise), ln noise + logsumexp [p1, p2] - ln 2]"
  have "logsumexp [p1 + ln (1 - noise), ln noise + logsumexp [n0, p2] - ln 2]
      = logsumexp [ln (1 - noise) + p1, ln noise + logsumexp [p0, p2] - ln 2]"
    using eq by (simp add: noisy_loop_3 spec_noisy_probs_3 Let_def n0_def)
  then have "exp (logsumexp [p1 + ln (1 - noise), ln noise + logsumexp [n0, p2] - ln 2])
      = exp (logsumexp [ln (1 - noise) + p1, ln noise + logsumexp [p0, p2] - ln 2])"
    by simp
  then have "exp p1 * 19 / 20 + (exp n0 + exp p2) / 40
      = 19 * exp p1 / 20 + (exp p0 + exp p2) / 40"
    by (simp add: exp_logsumexp2 exp_add exp_diff noise_def)
  then have "exp n0 = exp p0"
    by argo
  moreover have "exp n0 = exp p0 * 19 / 20 + (exp p1 + exp p2) / 40"
    by (simp add: n0_def exp_logsumexp2 exp_add exp_diff noise_def)
  ultimately have "exp p1 + exp p2 = 2 * exp p0"
    by argo
  with assms show False by simp
qed

lemma noisy_first_agrees:
  "noisy_loop [0..<3] [p0, p1, p2] ! 0 = spec_noisy_probs [p0, p1, p2] ! 0"
  by (simp add: noisy_loop_3 spec_noisy_probs_3 Let_def add.commute)

lemma perception_identity:
  "exp (perception_rows identity_lexicon example_mental_state ! 0 ! 0) = 38 / 49"
  "exp (perception_rows identity_lexicon example_mental_state ! 1 ! 0) = 1 / 86"
  "exp (perception_rows identity_lexicon example_mental_state ! 2 ! 0) = 1 / 345"
  by (simp_all add: perception_rows_def normalize_logprobs_def logsumexp_def lit_joint_def
      lit_weight_def noise_def signals_def exp_add exp_diff identity_lexicon_def example_mental_state_def)

lemma exp_alpha: "exp (alpha * v) = exp v ^ 3"
proof -
  have "exp (alpha * v) = exp (v + v + v)"
    by (simp add: alpha_def)
  also have "\<dots> = exp v ^ 3"
    by (simp only: exp_add power3_eq_cube)
  finally show ?thesis .
qed

lemma production_probs_exp:
  fixes m language ref_distribution
  defines "e \<equiv> \<lambda>s. exp (perception_rows language ref_distribution ! s ! m) ^ 3"
  shows "production_probs m language ref_distribution =
           [ln (e 0 / (e 0 + e 1 + e 2)), ln (e 1 / (e 0 + e 1 + e 2)), ln (e 2 / (e 0 + e 1 + e 2))]"
  by (simp add: production_probs_def softmax_def exp_alpha e_def add.assoc)

lemma example_mental_state_eq:
  "calc_mental_state 1 [1/10, 2/10, 9/10] = Inr example_mental_state"
proof -
  have lse: "logsumexp [ln (1/10), ln (2/10), ln (9/10)] = ln (6/5)"
    by (simp add: logsumexp_def)
  have "ln (1/10) - ln (6/5) = ln (1/12 :: real)" "ln (2/10) - ln (6/5) = ln (1/6 :: real)"
    "ln (9/10) - ln (6/5) = ln (3/4 :: real)"
    using ln_div [of "1/10 :: real" "6/5"] ln_div [of "2/10 :: real" "6/5"]
      ln_div [of "9/10 :: real" "6/5"]
    by simp_all
  then have "normalize_logprobs [ln (1/10), ln (2/10), ln (9/10)] = example_mental_state"
    using lse by (simp add: normalize_logprobs_def example_mental_state_def)
  moreover have "calc_mental_state 1 [1/10, 2/10, 9/10]
      = Inr (normalize_logprobs (map (\<lambda>c. ln (1 - \<bar>1 - c\<bar>)) [1/10, 2/10, 9/10]))"
    by (rule calc_mental_state_ok) simp
  ultimately show ?thesis by simp
qed

text \<open>
  C2 fails on the code. The loop of \<open>list2_spkr1\<close> overwrites
  \<open>noisy_speaker_probs\<close> while it reads the other entries from the same array, so
  from the second signal on the other entries are no longer the output of the pragmatic
  speaker. For the first signal the two agree (\<open>noisy_first_agrees\<close>); for signal
  \<open>b\<close>, meaning 0, the identity lexicon and the mental state of perspective 1 in the
  context \<open>[0.1, 0.2, 0.9]\<close> the value of the code is not the value of the claim.
\<close>

theorem list2_spkr1_second_signal:
  "list2_spkr1 (CHR ''b'') 0 [''100'', ''010'', ''001''] [ln (1/12), ln (1/6), ln (3/4)]
     \<noteq> spec_list2_spkr1 (CHR ''b'') 0 [''100'', ''010'', ''001''] [ln (1/12), ln (1/6), ln (3/4)]"
proof -
  have wf: "wf_language identity_lexicon" "3 \<le> length example_mental_state"
    by (simp_all add: wf_language_def identity_lexicon_def example_mental_state_def)
  define e0 where "e0 = exp (perception_rows identity_lexicon example_mental_state ! 0 ! 0) ^ 3"
  define e1 where "e1 = exp (perception_rows identity_lexicon example_mental_state ! 1 ! 0) ^ 3"
  define e2 where "e2 = exp (perception_rows identity_lexicon example_mental_state ! 2 ! 0) ^ 3"
  define z where "z = e0 + e1 + e2"
  have e: "e0 = (38 / 49) ^ 3" "e1 = (1 / 86) ^ 3" "e2 = (1 / 345) ^ 3"
    by (simp_all only: e0_def e1_def e2_def perception_identity)
  have z: "0 < z"
    by (simp add: z_def e power3_eq_cube)
  have P: "production_probs 0 identity_lexicon example_mental_state = [ln (e0 / z), ln (e1 / z), ln (e2 / z)]"
    unfolding e0_def e1_def e2_def z_def by (rule production_probs_exp)
  have pos: "0 < e0 / z" "0 < e1 / z" "0 < e2 / z"
    using z by (simp_all add: e power3_eq_cube)
  have "e1 + e2 \<noteq> 2 * e0"
    by (simp add: e power3_eq_cube)
  then have "e1 / z + e2 / z \<noteq> 2 * (e0 / z)"
    using z by (simp add: field_simps)
  then have ne: "exp (ln (e1 / z)) + exp (ln (e2 / z)) \<noteq> 2 * exp (ln (e0 / z))"
    using pos by simp
  have b: "signals ! 1 = CHR ''b''"
    by (simp add: signals_def)
  have code: "list2_spkr1 (CHR ''b'') 0 identity_lexicon example_mental_state
                = Inr (example_mental_state ! 0 + noisy_loop [0..<3] (production_probs 0 identity_lexicon example_mental_state) ! 1)"
    using list2_spkr1_wf [OF wf, of 1 0] by (simp add: signals_def)
  have "filter (\<lambda>i. signals ! i = CHR ''b'') [0..<length signals] = [1]"
    by (simp add: signals_def upt_3)
  then have spec: "spec_list2_spkr1 (CHR ''b'') 0 identity_lexicon example_mental_state
                = Inr (example_mental_state ! 0 + spec_noisy_probs (production_probs 0 identity_lexicon example_mental_state) ! 1)"
    using wf by (auto simp: spec_list2_spkr1_def spkr1_production_probs_wf index_r_def)
  have "list2_spkr1 (CHR ''b'') 0 identity_lexicon example_mental_state \<noteq> spec_list2_spkr1 (CHR ''b'') 0 identity_lexicon example_mental_state"
    using noisy_second_differs [OF ne] by (simp add: code spec P)
  then show ?thesis
    by (simp add: identity_lexicon_def example_mental_state_def)
qed

subsection \<open>Production at pragmatic level 0\<close>

lemma other_signals_loop_last:
  "other_signals_loop signals_for_r other_signals =
     (if signals_for_r = [] then other_signals
      else filter (\<lambda>x. x \<noteq> last signals_for_r) signals)"
  by (induction signals_for_r arbitrary: other_signals) auto

text \<open>
  At pragmatic level 0 the signal is the winner-take-all signal unless the noise draw
  fires on a row that does not use every signal. For a row with exactly one usable
  signal the substitute then differs from the winner-take-all signal.
\<close>

lemma produce_level0:
  assumes "calc_mental_state perspective ctx = Inr mental_state"
    and "sampled_meaning d < length language"
    and "language ! sampled_meaning d = [a, b, c]"
    and "wta_index d < 3"
  shows "produce (language, perspective, 0) ctx d =
     (let signals_for_r = (if a = CHR ''1'' then ''a'' else []) @ (if b = CHR ''1'' then ''b'' else [])
                           @ (if c = CHR ''1'' then ''c'' else [])
      in if uniform_draw d < noise \<and> length signals_for_r \<noteq> 3
         then ebind (index_r (other_signals_loop signals_for_r signals) (choice_index d))
                (\<lambda>signal. Inr (signal, ctx))
         else Inr (signals ! wta_index d, ctx))"
  using assms
  by (simp add: produce_def index_r_def meanings_def upt_3 signals_def Let_def)

lemma wta_single:
  assumes "wta_possible row w" and "binary row" and "j < length row" and "row ! j = CHR ''1''"
    and "\<forall>i<length row. i \<noteq> j \<longrightarrow> row ! i = CHR ''0''"
  shows "w = j"
proof (rule ccontr)
  assume "w \<noteq> j"
  have w: "w < length row" and le: "(of_char (row ! j) :: nat) \<le> of_char (row ! w)"
    using assms(1,3) by (auto simp: wta_possible_def list_all_length)
  from w \<open>w \<noteq> j\<close> assms(5) have "row ! w = CHR ''0''" by simp
  with le assms(4) show False by simp
qed

lemma produce_single_usable:
  assumes "calc_mental_state perspective ctx = Inr mental_state"
    and "sampled_meaning d < length language"
    and "language ! sampled_meaning d \<in> {''100'', ''010'', ''001''}"
    and "wta_possible (language ! sampled_meaning d) (wta_index d)"
    and "uniform_draw d < noise" and "choice_index d < 2"
  shows "\<exists>signal. produce (language, perspective, 0) ctx d = Inr (signal, ctx)
           \<and> signal \<noteq> signals ! wta_index d
           \<and> signal \<in> set signals"
proof -
  from assms(3) consider "language ! sampled_meaning d = ''100''"
    | "language ! sampled_meaning d = ''010''" | "language ! sampled_meaning d = ''001''"
    by auto
  then show ?thesis
  proof cases
    case 1
    have "wta_index d = 0"
      using assms(4) by (intro wta_single [of "''100''"]) (auto simp: 1 binary_def less_Suc_eq)
    then show ?thesis
      using produce_level0 [OF assms(1,2) 1] assms(5,6)
      by (auto simp: signals_def index_r_def less_Suc_eq numeral_2_eq_2)
  next
    case 2
    have "wta_index d = 1"
      using assms(4) by (intro wta_single [of "''010''"]) (auto simp: 2 binary_def less_Suc_eq)
    then show ?thesis
      using produce_level0 [OF assms(1,2) 2] assms(5,6)
      by (auto simp: signals_def index_r_def less_Suc_eq numeral_2_eq_2)
  next
    case 3
    have "wta_index d = 2"
      using assms(4) by (intro wta_single [of "''001''"]) (auto simp: 3 binary_def less_Suc_eq)
    then show ?thesis
      using produce_level0 [OF assms(1,2) 3] assms(5,6)
      by (auto simp: signals_def index_r_def less_Suc_eq numeral_2_eq_2)
  qed
qed

text \<open>
  C5 fails on the code. For the row \<open>110\<close> the usable signals are \<open>a\<close> and
  \<open>b\<close>; the loop leaves \<open>other_signals\<close> as the alphabet without the last of
  them, \<open>ac\<close>. When winner-take-all picks position 0, a position of a highest
  entry of the row, and the noise draw fires, the choice of position 0 of
  \<open>other_signals\<close> substitutes the signal \<open>a\<close>, the winner-take-all signal itself.
\<close>

theorem produce_repeats_winner:
  "wta_possible ''110'' 0
   \<and> signals ! 0 = CHR ''a''
   \<and> other_signals_loop ''ab'' signals = ''ac''
   \<and> produce ([''110'', ''010'', ''001''], 1, 0) [1/10, 2/10, 9/10]
        \<lparr>sampled_meaning = 0, wta_index = 0, sampled_signal = 0,
         uniform_draw = 1/100, choice_index = 0\<rparr>
      = Inr (CHR ''a'', [1/10, 2/10, 9/10])"
proof -
  have ms: "calc_mental_state 1 [1/10, 2/10, 9/10]
      = Inr (normalize_logprobs (map (\<lambda>c. ln (1 - \<bar>1 - c\<bar>)) [1/10, 2/10, 9/10]))"
    by (rule calc_mental_state_ok) simp
  show ?thesis
    using ms
    by (simp add: produce_def wta_possible_def signals_def index_r_def meanings_def
        upt_3 noise_def Let_def)
qed


subsection \<open>Agreement of the two scripts\<close>

text \<open>
  On the lexicons that \<open>languages\<close> holds and for a signal of the alphabet, the
  functions of \<^verbatim>\<open>learn_pragmatics.py\<close> return what those of
  \<^verbatim>\<open>level_prag_learn.py\<close> return, with every hypothesis at pragmatic level 1.
\<close>

lemma comprehension_nth_upt:
  "comprehension (\<lambda>i. f (xs ! i)) [0..<length xs] = comprehension f xs"
proof (induction xs rule: rev_induct)
  case Nil
  then show ?case by simp
next
  case (snoc x xs)
  have app: "comprehension g (ys @ [y]) =
      ebind (comprehension g ys) (\<lambda>vs. ebind (g y) (\<lambda>v. Inr (vs @ [v])))" for g :: "'c \<Rightarrow> error + 'd" and ys y
    by (induction ys) (auto simp: ebind_def split: sum.splits)
  have "comprehension (\<lambda>i. f ((xs @ [x]) ! i)) [0..<length xs]
      = comprehension (\<lambda>i. f (xs ! i)) [0..<length xs]"
    by (intro comprehension_cong) (simp add: nth_append)
  then show ?case
    using snoc.IH by (simp add: app)
qed

lemma calc_mental_state_lp_eq:
  "calc_mental_state_lp perspective ctx = calc_mental_state perspective ctx"
  using comprehension_nth_upt [of "\<lambda>c. py_log (1 - \<bar>perspective - c\<bar>)" ctx]
  by (simp add: calc_mental_state_lp_def calc_mental_state_def fill_loop_upt)

lemma valid_lexicon_wf: "valid_lexicon language \<Longrightarrow> wf_language language"
  by (simp add: valid_lexicon_def wf_language_def)

lemma list1_lit_spkr_lp_row:
  assumes "m < length language" and "language ! m = [a, b, c]" and "binary [a, b, c]"
  shows "list1_lit_spkr_lp signal m language ref_distribution
           = list1_lit_spkr signal m language ref_distribution"
proof -
  have abc: "a = CHR ''0'' \<or> a = CHR ''1''" "b = CHR ''0'' \<or> b = CHR ''1''"
    "c = CHR ''0'' \<or> c = CHR ''1''"
    using assms(3) by (auto simp: binary_def)
  have flags: "comprehension (\<lambda>s.
              ebind (index_r language m) (\<lambda>row.
              ebind (index_r row s) (\<lambda>c. Inr (s, c = CHR ''1''))))
            [0..<length meanings]
      = Inr [(0, a = CHR ''1''), (1, b = CHR ''1''), (2, c = CHR ''1'')]"
    using assms(1,2) by (simp add: meanings_def upt_3 index_r_def)
  have where3: "signals_where [a, b, c] =
     Inr ((if a = CHR ''1'' then ''a'' else []) @ (if b = CHR ''1'' then ''b'' else [])
          @ (if c = CHR ''1'' then ''c'' else []))"
    using abc by (auto simp: signals_where_3)
  have row: "index_r language m = Inr [a, b, c]"
    using assms(1,2) by (simp add: index_r_def)
  have sfr: "map (\<lambda>(s, _). signals ! s)
          (filter snd [(0::nat, a = CHR ''1''), (1, b = CHR ''1''), (2, c = CHR ''1'')])
      = (if a = CHR ''1'' then ''a'' else []) @ (if b = CHR ''1'' then ''b'' else [])
          @ (if c = CHR ''1'' then ''c'' else [])"
    by (simp add: signals_def)
  show ?thesis
    unfolding list1_lit_spkr_lp_def flags
    unfolding list1_lit_spkr_def row where3 ebind_simps sfr
    by (simp add: num_signals_def signals_def)
qed

lemma list1_lit_spkr_lp_eq:
  assumes "valid_lexicon language" "m < 3"
  shows "list1_lit_spkr_lp signal m language ref_distribution
           = list1_lit_spkr signal m language ref_distribution"
proof -
  have m: "m < length language" and mem: "language ! m \<in> set language"
    using assms by (simp_all add: valid_lexicon_def)
  then have "length (language ! m) = 3" and b: "binary (language ! m)"
    using assms(1) by (simp_all add: valid_lexicon_def)
  then obtain a b c where row: "language ! m = [a, b, c]"
    using length_3_cases by blast
  show ?thesis
    using list1_lit_spkr_lp_row [OF m row] b by (simp add: row)
qed

lemma list1_perception_matrix_lp_eq:
  assumes "valid_lexicon language"
  shows "list1_perception_matrix_lp language ref_distribution
           = list1_perception_matrix language ref_distribution"
proof -
  have inner: "comprehension (\<lambda>m. list1_lit_spkr_lp s m language ref_distribution) meanings
      = fill_loop (\<lambda>m. list1_lit_spkr s m language ref_distribution)
                  meanings (replicate (length meanings) 0)" for s
    unfolding meanings_upt
    by (subst fill_loop_upt, simp, rule comprehension_cong) (simp add: list1_lit_spkr_lp_eq assms)
  have "comprehension (\<lambda>s.
         ebind (fill_loop (\<lambda>m. list1_lit_spkr s m language ref_distribution)
                  meanings (replicate (length meanings) 0))
           (\<lambda>row. Inr (normalize_logprobs row))) signals
      = comprehension (\<lambda>s.
         ebind (fill_loop (\<lambda>m. list1_lit_spkr (signals ! s) m language ref_distribution)
                  meanings (replicate (length meanings) 0))
           (\<lambda>row. Inr (normalize_logprobs row))) [0..<length signals]"
    by (rule comprehension_nth_upt [symmetric])
  then show ?thesis
    by (simp add: list1_perception_matrix_lp_def list1_perception_matrix_def inner fill_loop_upt)
qed

lemma comprehension_py_log_softmax:
  "comprehension py_log (softmax us) = Inr (map ln (softmax us))"
proof (rule comprehension_map, rule ballI)
  fix x assume "x \<in> set (softmax us)"
  then obtain u where "u \<in> set us" and x: "x = exp u / sum_list (map exp us)"
    by (auto simp: softmax_def)
  then have "us \<noteq> []" by auto
  then have "0 < x"
    using sum_list_exp_pos [of us] by (simp add: x)
  then show "py_log x = Inr (ln x)"
    by (simp add: py_log_def)
qed

lemma spkr1_production_probs_lp_eq:
  assumes "valid_lexicon language"
  shows "spkr1_production_probs_lp m language ref_distribution
           = spkr1_production_probs m language ref_distribution"
  by (simp add: spkr1_production_probs_lp_def spkr1_production_probs_def
      list1_perception_matrix_lp_eq [OF assms] comprehension_py_log_softmax)

lemma length_noisy_loop: "length (noisy_loop idx p) = length p"
  by (induction idx arbitrary: p) (simp_all add: Let_def)

lemma spkr1_production_probs_length:
  assumes "spkr1_production_probs m language ref_distribution = Inr p"
  shows "length p = 3"
proof -
  from assms obtain u where
    u: "comprehension (\<lambda>s.
              ebind (list1_perception_matrix language ref_distribution) (\<lambda>mat.
              ebind (index_r mat s) (\<lambda>row.
              ebind (index_r row m) (\<lambda>v. Inr (alpha * v))))) [0..<length signals] = Inr u"
    and p: "p = map ln (softmax u)"
    by (auto simp: spkr1_production_probs_def ebind_def split: sum.splits)
  from comprehension_length [OF u] show ?thesis
    by (simp add: p softmax_def signals_upt)
qed

lemma list_index_signals: "s < 3 \<Longrightarrow> list_index signals (signals ! s) = Inr s"
  by (auto simp: signals_def less_Suc_eq numeral_3_eq_3)

lemma list2_spkr1_lp_eq:
  assumes "valid_lexicon language" "s < 3"
  shows "list2_spkr1_lp (signals ! s) m language ref_distribution
           = list2_spkr1 (signals ! s) m language ref_distribution"
proof (cases "spkr1_production_probs m language ref_distribution")
  case (Inl e)
  then show ?thesis
    using assms
    by (simp add: list2_spkr1_lp_def list2_spkr1_def spkr1_production_probs_lp_eq
        list_index_signals)
next
  case (Inr p)
  have idx: "filter (\<lambda>i. signals ! i = signals ! s) [0..<length signals] = [s]"
    using assms(2) by (auto simp: signals_def upt_3 less_Suc_eq numeral_3_eq_3)
  have len: "length (noisy_loop [0..<length p] p) = 3"
    using spkr1_production_probs_length [OF Inr] by (simp add: length_noisy_loop)
  show ?thesis
    using assms Inr len
    by (simp add: list2_spkr1_lp_def list2_spkr1_def spkr1_production_probs_lp_eq
        list_index_signals idx index_r_def Let_def ebind_def split: sum.splits)
qed

lemma update_posterior_lp_eq:
  assumes "\<forall>h\<in>set lp_pairs. valid_lexicon (fst h)" and "s < 3"
  shows "update_posterior_lp lp_pairs posterior (signals ! s) ctx
           = update_posterior (map (\<lambda>(language, perspective). (language, perspective, 1)) lp_pairs)
               posterior (signals ! s) ctx"
proof -
  let ?hs = "map (\<lambda>(language, perspective). (language, perspective, 1::int)) lp_pairs"
  have "ebind (index_r lp_pairs i) (\<lambda>(language, perspective).
              ebind (calc_mental_state_lp perspective ctx) (\<lambda>ref_distribution.
              ebind (comprehension (\<lambda>meaning.
                       list2_spkr1_lp (signals ! s) meaning language ref_distribution) meanings)
                (\<lambda>marginalize. Inr (posterior ! i + logsumexp marginalize))))
      = ebind (index_r ?hs i) (\<lambda>h.
              ebind (marginal_likelihood h (signals ! s) ctx) (\<lambda>l. Inr (posterior ! i + l)))" for i
  proof (cases "i < length lp_pairs")
    case False
    then show ?thesis by (simp add: index_r_def)
  next
    case True
    obtain l p where h: "lp_pairs ! i = (l, p)"
      by (cases "lp_pairs ! i") auto
    have "valid_lexicon l"
      using assms(1) True h nth_mem [OF True] by fastforce
    then have l2: "list2_spkr1_lp (signals ! s) meaning l r = list2_spkr1 (signals ! s) meaning l r"
      for meaning r
      using assms(2) by (rule list2_spkr1_lp_eq)
    show ?thesis
      using True h
      by (simp add: index_r_def calc_mental_state_lp_eq marginal_likelihood_def l2
          meanings_upt fill_loop_upt ebind_def split: sum.splits)
  qed
  then show ?thesis
    by (simp add: update_posterior_lp_def update_posterior_comprehension)
qed

end
